theory Spec2Isabelle
  imports Complex_Main "HOL-Library.Multiset"
begin

section \<open>JavaScript values as the catalog builder sees them\<close>

text \<open>
  Strings are \<open>string\<close> (lists of 8-bit characters, read as UTF-8). The program only
  ever inspects the ASCII characters \<open>.\<close>, \<open>/\<close> and the letters of the extensions, so the
  byte view and the UTF-16 view of JavaScript agree on everything modelled here.

  A JavaScript number is \<open>NaN\<close>, an infinity or a finite rational (every double is one;
  \<open>-0\<close> and \<open>+0\<close> are both \<open>Fin 0\<close>). A \<open>Date\<close> object is its time value in
  milliseconds since the epoch, \<open>None\<close> for an invalid date. A mapping is the list of its
  own properties, and no value is a function: these are the values the parser builds from
  the YAML core types and timestamps. Values are finite trees (an alias is a copy).
\<close>

datatype jsnum = NaN | PosInf | NegInf | Fin rat

datatype jsval =
    JUndefined
  | JNull
  | JBool bool
  | JNum jsnum
  | JStr string
  | JDate "int option"
  | JArr "jsval list"
  | JObj "(string \<times> jsval) list"

datatype error = ENOENT | ENOTDIR | EISDIR | EACCES | YAMLException | TypeError

text \<open>
  What the program takes from its libraries and from the engine without fixing it:
  \<open>yaml.load\<close> (text in, value out, or an exception), \<open>Date.parse\<close> on a string
  (\<open>None\<close> is \<open>NaN\<close>), and the conversion of finite numbers and of dates to strings.
\<close>

record env =
  yaml_load :: "string \<Rightarrow> error + jsval"
  date_parse :: "string \<Rightarrow> int option"
  number_to_string :: "rat \<Rightarrow> string"
  date_to_string :: "int option \<Rightarrow> string"

text \<open>ToBoolean, as used by \<open>||\<close> and by the conditional operator.\<close>

fun truthy :: "jsval \<Rightarrow> bool" where
  "truthy JUndefined = False"
| "truthy JNull = False"
| "truthy (JBool b) = b"
| "truthy (JNum NaN) = False"
| "truthy (JNum (Fin q)) = (q \<noteq> 0)"
| "truthy (JNum _) = True"
| "truthy (JStr s) = (s \<noteq> [])"
| "truthy (JDate _) = True"
| "truthy (JArr _) = True"
| "truthy (JObj _) = True"

definition js_or :: "jsval \<Rightarrow> jsval \<Rightarrow> jsval" where
  "js_or a b = (if truthy a then a else b)"

text \<open>
  Property read \<open>v.k\<close> for the two keys the program reads, \<open>format\<close> and \<open>date\<close>:
  neither is a property of any built-in prototype, so only a mapping can have them.
\<close>

fun get_prop :: "jsval \<Rightarrow> string \<Rightarrow> jsval" where
  "get_prop (JObj kvs) k = (case map_of kvs k of None \<Rightarrow> JUndefined | Some v \<Rightarrow> v)"
| "get_prop _ k = JUndefined"

fun join :: "string \<Rightarrow> string list \<Rightarrow> string" where
  "join sep [] = []"
| "join sep [s] = s"
| "join sep (s # t # ts) = s @ sep @ join sep (t # ts)"

text \<open>The results of a list of steps, or the first exception among them.\<close>

fun sequence :: "(error + 'a) list \<Rightarrow> error + 'a list" where
  "sequence [] = Inr []"
| "sequence (Inl e # rs) = Inl e"
| "sequence (Inr x # rs) = (case sequence rs of Inl e \<Rightarrow> Inl e | Inr xs \<Rightarrow> Inr (x # xs))"

text \<open>
  The string a value converts to, as in \<open>"." + meta.format\<close>. A mapping or an array is
  first converted to a primitive: \<open>valueOf\<close> gives back the object, so \<open>toString\<close>
  decides. An array joins the strings of its elements. A mapping inherits the \<open>toString\<close>
  that answers \<open>[object Object]\<close>, unless it has a property of that name: that property
  is not a function, and the conversion raises a \<open>TypeError\<close>.
\<close>

fun to_string :: "env \<Rightarrow> jsval \<Rightarrow> error + string" where
  "to_string E JUndefined = Inr ''undefined''"
| "to_string E JNull = Inr ''null''"
| "to_string E (JBool b) = Inr (if b then ''true'' else ''false'')"
| "to_string E (JNum NaN) = Inr ''NaN''"
| "to_string E (JNum PosInf) = Inr ''Infinity''"
| "to_string E (JNum NegInf) = Inr ''-Infinity''"
| "to_string E (JNum (Fin q)) = Inr (number_to_string E q)"
| "to_string E (JStr s) = Inr s"
| "to_string E (JDate t) = Inr (date_to_string E t)"
| "to_string E (JArr vs) =
     (case sequence (map (\<lambda>v. if v = JUndefined \<or> v = JNull then Inr [] else to_string E v) vs) of
        Inl e \<Rightarrow> Inl e
      | Inr ss \<Rightarrow> Inr (join '','' ss))"
| "to_string E (JObj kvs) =
     (if map_of kvs ''toString'' \<noteq> None then Inl TypeError else Inr ''[object Object]'')"

text \<open>
  The time value of \<open>new Date(v)\<close>: a date is copied, a string is parsed, a number is
  truncated and clipped to the range of valid time values, and an array or a mapping is
  converted to a string first, which may raise.
\<close>

definition time_clip :: "rat \<Rightarrow> int option" where
  "time_clip q =
     (if \<bar>q\<bar> > 8640000000000000 then None
      else Some (if q \<ge> 0 then \<lfloor>q\<rfloor> else \<lceil>q\<rceil>))"

fun new_Date :: "env \<Rightarrow> jsval \<Rightarrow> error + int option" where
  "new_Date E (JDate t) = Inr t"
| "new_Date E (JStr s) = Inr (date_parse E s)"
| "new_Date E (JNum (Fin q)) = Inr (time_clip q)"
| "new_Date E (JNum _) = Inr None"
| "new_Date E (JBool b) = Inr (Some (if b then 1 else 0))"
| "new_Date E JNull = Inr (Some 0)"
| "new_Date E JUndefined = Inr None"
| "new_Date E (JArr vs) =
     (case to_string E (JArr vs) of Inl e \<Rightarrow> Inl e | Inr s \<Rightarrow> Inr (date_parse E s))"
| "new_Date E (JObj kvs) =
     (case to_string E (JObj kvs) of Inl e \<Rightarrow> Inl e | Inr s \<Rightarrow> Inr (date_parse E s))"

section \<open>Strings\<close>

definition toLowerCase_char :: "char \<Rightarrow> char" where
  "toLowerCase_char c =
     (let n = (of_char c :: nat) in if 65 \<le> n \<and> n \<le> 90 then char_of (n + 32) else c)"

definition toLowerCase :: "string \<Rightarrow> string" where
  "toLowerCase s = map toLowerCase_char s"

definition endsWith :: "string \<Rightarrow> string \<Rightarrow> bool" where
  "endsWith s t = (length t \<le> length s \<and> drop (length s - length t) s = t)"

text \<open>
  \<open>s.replace(/\.(yml|yaml)$/i, "")\<close>: the pattern is anchored at the end of the string,
  so it can match only the last four or the last five characters, and never both.
\<close>

definition replace_yaml_ext :: "string \<Rightarrow> string" where
  "replace_yaml_ext s =
     (if endsWith (toLowerCase s) ''.yml'' then take (length s - 4) s
      else if endsWith (toLowerCase s) ''.yaml'' then take (length s - 5) s
      else s)"

text \<open>\<open>s.split(c)\<close> for a separator of one character: never an empty array.\<close>

fun split :: "char \<Rightarrow> string \<Rightarrow> string list" where
  "split c [] = [[]]"
| "split c (x # xs) =
     (if x = c then [] # split c xs
      else (case split c xs of [] \<Rightarrow> [[x]] | p # ps \<Rightarrow> (x # p) # ps))"

text \<open>\<open>arr.pop()\<close>, of which only the returned element is used: \<open>None\<close> is \<open>undefined\<close>.\<close>

fun pop :: "'a list \<Rightarrow> 'a option" where
  "pop [] = None"
| "pop [x] = Some x"
| "pop (x # y # ys) = pop (y # ys)"

section \<open>The file system under \<open>./public/docs\<close>\<close>

text \<open>
  A node is a regular file with its text, a regular file that cannot be read, a directory,
  a directory that cannot be listed, or anything else (a link, a socket). A directory is
  what the program can see of it: the listing \<open>readdirSync\<close> returns, in scan order, with
  the type of each entry, and what each name resolves to when a path goes through it.
  The two are kept apart, since a name can be listed and not resolve (a name that is not
  valid UTF-8 is listed with replacement characters). The file system is the node at
  \<open>./public/docs\<close>, if there is one. Paths are the lists of components below that root.
\<close>

datatype kind = KFile | KDir | KOther

type_synonym dirent = "string \<times> kind"
type_synonym path = "string list"

datatype fsnode =
    File string
  | NoReadFile
  | Dir "dirent list" "string \<Rightarrow> fsnode option"
  | NoReadDir
  | Other

fun kind_of :: "fsnode \<Rightarrow> kind" where
  "kind_of (File raw) = KFile"
| "kind_of NoReadFile = KFile"
| "kind_of (Dir ds look) = KDir"
| "kind_of NoReadDir = KDir"
| "kind_of Other = KOther"

text \<open>The ordinary directory: every entry is listed under the name it resolves by.\<close>

definition dir :: "(string \<times> fsnode) list \<Rightarrow> fsnode" where
  "dir es = Dir (map (\<lambda>(name, n). (name, kind_of n)) es) (map_of es)"

fun child :: "fsnode \<Rightarrow> string \<Rightarrow> fsnode option" where
  "child (Dir ds look) c = look c"
| "child _ c = None"

definition resolve :: "fsnode option \<Rightarrow> path \<Rightarrow> fsnode option" where
  "resolve fs p = fold (\<lambda>c r. Option.bind r (\<lambda>n. child n c)) p fs"

definition PUBLIC_DOCS :: path where
  "PUBLIC_DOCS = []"

definition path_join :: "path \<Rightarrow> string \<Rightarrow> path" where
  "path_join p c = p @ [c]"

definition existsSync :: "fsnode option \<Rightarrow> path \<Rightarrow> bool" where
  "existsSync fs p = (resolve fs p \<noteq> None)"

definition readdirSync :: "fsnode option \<Rightarrow> path \<Rightarrow> error + dirent list" where
  "readdirSync fs p =
     (case resolve fs p of
        None \<Rightarrow> Inl ENOENT
      | Some (Dir ds look) \<Rightarrow> Inr ds
      | Some NoReadDir \<Rightarrow> Inl EACCES
      | Some _ \<Rightarrow> Inl ENOTDIR)"

definition readFileSync :: "fsnode option \<Rightarrow> path \<Rightarrow> error + string" where
  "readFileSync fs p =
     (case resolve fs p of
        None \<Rightarrow> Inl ENOENT
      | Some (File raw) \<Rightarrow> Inr raw
      | Some (Dir ds look) \<Rightarrow> Inl EISDIR
      | Some NoReadDir \<Rightarrow> Inl EISDIR
      | Some _ \<Rightarrow> Inl EACCES)"

definition isDirectory :: "dirent \<Rightarrow> bool" where
  "isDirectory d = (snd d = KDir)"

definition isFile :: "dirent \<Rightarrow> bool" where
  "isFile d = (snd d = KFile)"

section \<open>The catalog builder\<close>

record doc =
  project :: string
  filename :: string
  slug :: string
  meta :: jsval
  url :: string

text \<open>\<open>readYAML\<close>: any exception of the read or of the parser becomes the empty mapping.\<close>

definition readYAML :: "env \<Rightarrow> fsnode option \<Rightarrow> path \<Rightarrow> jsval" where
  "readYAML E fs filePath =
     (case readFileSync fs filePath of
        Inl e \<Rightarrow> JObj []
      | Inr raw \<Rightarrow>
          (case yaml_load E raw of
             Inl e \<Rightarrow> JObj []
           | Inr v \<Rightarrow> js_or v (JObj [])))"

text \<open>The filter of the listing of a project directory.\<close>

definition is_sidecar :: "dirent \<Rightarrow> bool" where
  "is_sidecar f = (isFile f \<and> (endsWith (fst f) ''.yml'' \<or> endsWith (fst f) ''.yaml''))"

definition yaml_files :: "dirent list \<Rightarrow> string list" where
  "yaml_files ds = map fst (filter is_sidecar ds)"

text \<open>
  The body of the inner loop: the record pushed for one sidecar file. Nothing catches
  the exception the concatenation with \<open>meta.format\<close> may raise.
\<close>

definition make_doc :: "env \<Rightarrow> fsnode option \<Rightarrow> string \<Rightarrow> string \<Rightarrow> error + doc" where
  "make_doc E fs proj propFile =
     (let projectDir = path_join PUBLIC_DOCS proj;
          fullPath = path_join projectDir propFile;
          m = js_or (readYAML E fs fullPath) (JObj []);
          sl = replace_yaml_ext propFile
      in (case to_string E (get_prop m ''format'') of
            Inl e \<Rightarrow> Inl e
          | Inr fmt \<Rightarrow>
              (let fname = replace_yaml_ext propFile @ ''.'' @ fmt
               in Inr \<lparr> project = proj, filename = fname, slug = sl, meta = m,
                        url = ''/docs/'' @ proj @ ''/'' @ fname \<rparr>)))"

fun file_loop ::
  "env \<Rightarrow> fsnode option \<Rightarrow> string \<Rightarrow> string list \<Rightarrow> doc list \<Rightarrow> error + doc list" where
  "file_loop E fs proj [] projects = Inr projects"
| "file_loop E fs proj (propFile # files) projects =
     (case make_doc E fs proj propFile of
        Inl e \<Rightarrow> Inl e
      | Inr d \<Rightarrow> file_loop E fs proj files (projects @ [d]))"

fun project_loop ::
  "env \<Rightarrow> fsnode option \<Rightarrow> string list \<Rightarrow> doc list \<Rightarrow> error + doc list" where
  "project_loop E fs [] projects = Inr projects"
| "project_loop E fs (proj # rest) projects =
     (case readdirSync fs (path_join PUBLIC_DOCS proj) of
        Inl e \<Rightarrow> Inl e
      | Inr ds \<Rightarrow>
          (case file_loop E fs proj (yaml_files ds) projects of
             Inl e \<Rightarrow> Inl e
           | Inr projects' \<Rightarrow> project_loop E fs rest projects'))"

text \<open>
  The comparator of the final sort. \<open>date_or_epoch\<close> is \<open>da\<close> (or \<open>db\<close>): the date made
  from \<open>meta.date\<close> if that is truthy, the epoch otherwise; making the date may raise.
  \<open>db - da\<close> is \<open>NaN\<close> (\<open>None\<close>) when either date is invalid; otherwise the double it
  yields has the sign of the exact difference, which is all the sort looks at.
\<close>

definition date_or_epoch :: "env \<Rightarrow> doc \<Rightarrow> error + int option" where
  "date_or_epoch E a =
     (if truthy (get_prop (meta a) ''date'') then new_Date E (get_prop (meta a) ''date'')
      else new_Date E (JNum (Fin 0)))"

definition compare_docs :: "env \<Rightarrow> doc \<Rightarrow> doc \<Rightarrow> error + int option" where
  "compare_docs E a b =
     (case date_or_epoch E a of
        Inl e \<Rightarrow> Inl e
      | Inr da \<Rightarrow>
          (case date_or_epoch E b of
             Inl e \<Rightarrow> Inl e
           | Inr db \<Rightarrow>
               Inr (case (da, db) of (Some x, Some y) \<Rightarrow> Some (y - x) | _ \<Rightarrow> None)))"

text \<open>
  \<open>Array.prototype.sort\<close> with a comparator. A \<open>NaN\<close> from the comparator counts as
  \<open>+0\<close>, and an exception of the comparator is the exception of the sort. The language
  fixes the result when the comparator is consistent: the stable sorted permutation, which
  this insertion sort computes. With an inconsistent comparator the order is left to the
  engine, and the model gives the order of an insertion sort. An engine compares every
  element of an array of two or more at least once, as this sort does, so both raise for
  the same arrays.
\<close>

definition sort_compare :: "int option \<Rightarrow> int" where
  "sort_compare v = (case v of None \<Rightarrow> 0 | Some n \<Rightarrow> n)"

fun sort_insert ::
  "('a \<Rightarrow> 'a \<Rightarrow> error + int option) \<Rightarrow> 'a \<Rightarrow> 'a list \<Rightarrow> error + 'a list" where
  "sort_insert comparefn x [] = Inr [x]"
| "sort_insert comparefn x (y # ys) =
     (case comparefn x y of
        Inl e \<Rightarrow> Inl e
      | Inr v \<Rightarrow>
          (if sort_compare v \<le> 0 then Inr (x # y # ys)
           else (case sort_insert comparefn x ys of
                   Inl e \<Rightarrow> Inl e
                 | Inr zs \<Rightarrow> Inr (y # zs))))"

fun js_sort :: "('a \<Rightarrow> 'a \<Rightarrow> error + int option) \<Rightarrow> 'a list \<Rightarrow> error + 'a list" where
  "js_sort comparefn [] = Inr []"
| "js_sort comparefn (x # xs) =
     (case js_sort comparefn xs of
        Inl e \<Rightarrow> Inl e
      | Inr ys \<Rightarrow> sort_insert comparefn x ys)"

definition getAllDocs :: "env \<Rightarrow> fsnode option \<Rightarrow> error + doc list" where
  "getAllDocs E fs =
     (if \<not> existsSync fs PUBLIC_DOCS then Inr []
      else (case readdirSync fs PUBLIC_DOCS of
              Inl e \<Rightarrow> Inl e
            | Inr ds \<Rightarrow>
                (let projectNames = map fst (filter isDirectory ds)
                 in (case project_loop E fs projectNames [] of
                       Inl e \<Rightarrow> Inl e
                     | Inr projects \<Rightarrow> js_sort (compare_docs E) projects))))"

section \<open>The file icon\<close>

datatype icon = FaFilePdf | FaFileWord | FaFileExcel | FaFilePowerpoint | FaFileArchive | FaFileAlt

datatype element = Element (component: icon) (className: string) (icon_size: "jsnum + string")

text \<open>The extension the component switches on; \<open>None\<close> is a \<open>null\<close> or missing filename.\<close>

definition file_ext :: "string option \<Rightarrow> string" where
  "file_ext fname =
     (let name = (case fname of None \<Rightarrow> [] | Some s \<Rightarrow> if s = [] then [] else s)
      in (case pop (split (CHR ''.'') name) of
            None \<Rightarrow> []
          | Some e \<Rightarrow> if toLowerCase e = [] then [] else toLowerCase e))"

definition icon_switch :: "string \<Rightarrow> icon" where
  "icon_switch ext =
     (if ext = ''pdf'' then FaFilePdf
      else if ext = ''doc'' \<or> ext = ''docx'' then FaFileWord
      else if ext = ''xls'' \<or> ext = ''xlsx'' then FaFileExcel
      else if ext = ''ppt'' \<or> ext = ''pptx'' then FaFilePowerpoint
      else if ext = ''zip'' \<or> ext = ''tgz'' \<or> ext = ''tar'' \<or> ext = ''gz'' then FaFileArchive
      else FaFileAlt)"

definition FileIcon :: "string option \<Rightarrow> string option \<Rightarrow> (jsnum + string) option \<Rightarrow> element" where
  "FileIcon fname cls sz =
     Element (icon_switch (file_ext fname))
       (case cls of None \<Rightarrow> [] | Some c \<Rightarrow> c)
       (case sz of None \<Rightarrow> Inl (Fin 16) | Some z \<Rightarrow> z)"

section \<open>Notions used to state the properties\<close>

text \<open>
  The date of a record, as the comparator sees it: \<open>None\<close> when the date is invalid
  (\<open>NaN\<close>) and when making it raises.
\<close>

definition sort_date :: "env \<Rightarrow> doc \<Rightarrow> int option" where
  "sort_date E a = (case date_or_epoch E a of Inl e \<Rightarrow> None | Inr t \<Rightarrow> t)"

text \<open>\<open>a >= b\<close> on time values: false as soon as one of them is \<open>NaN\<close>.\<close>

definition js_ge :: "int option \<Rightarrow> int option \<Rightarrow> bool" where
  "js_ge a b = (case (a, b) of (Some x, Some y) \<Rightarrow> x \<ge> y | _ \<Rightarrow> False)"

text \<open>The part of a name after its last \<open>.\<close>; the whole name when it has none.\<close>

definition after_last_dot :: "string \<Rightarrow> string" where
  "after_last_dot s = rev (takeWhile (\<lambda>c. c \<noteq> CHR ''.'') (rev s))"

text \<open>
  What a sidecar's path resolves to when \<open>readYAML\<close> cannot read or cannot parse it:
  nothing, something that is not a readable regular file, or a text the parser rejects.
\<close>

definition broken :: "env \<Rightarrow> fsnode option \<Rightarrow> bool" where
  "broken E b = (case b of Some (File raw) \<Rightarrow> isl (yaml_load E raw) | _ \<Rightarrow> True)"

text \<open>
  The tree in which the path of the file \<open>f\<close> of the project \<open>p\<close> resolves to \<open>b\<close> and
  everything else, the listings included, is as in \<open>fs\<close>.
\<close>

definition put_file :: "fsnode option \<Rightarrow> string \<Rightarrow> string \<Rightarrow> fsnode option \<Rightarrow> fsnode option" where
  "put_file fs p f b =
     (case fs of
        Some (Dir L look) \<Rightarrow>
          (case look p of
             Some (Dir Lp lookp) \<Rightarrow> Some (Dir L (look(p \<mapsto> Dir Lp (lookp(f := b)))))
           | _ \<Rightarrow> fs)
      | _ \<Rightarrow> fs)"

text \<open>The record of a sidecar without metadata.\<close>

definition bare_doc :: "string \<Rightarrow> string \<Rightarrow> doc" where
  "bare_doc p f =
     \<lparr> project = p, filename = replace_yaml_ext f @ ''.undefined'', slug = replace_yaml_ext f,
       meta = JObj [], url = ''/docs/'' @ p @ ''/'' @ replace_yaml_ext f @ ''.undefined'' \<rparr>"

section \<open>Sample inputs\<close>

text \<open>
  An engine that knows the few documents and dates of the examples below: it parses
  these texts as any YAML parser does, rejects the unterminated mapping, and takes no
  other text. Its number and date printers are never reached by an example.
\<close>

definition sample_env :: env where
  "sample_env = \<lparr>
     yaml_load = (\<lambda>raw.
       if raw = ''{format: pdf, date: 2024-01-01}'' then
         Inr (JObj [(''format'', JStr ''pdf''), (''date'', JDate (Some 1704067200000))])
       else if raw = ''{format: docx, date: 2024-06-01}'' then
         Inr (JObj [(''format'', JStr ''docx''), (''date'', JDate (Some 1717200000000))])
       else if raw = ''{format: pdf, date: 2020-01-01}'' then
         Inr (JObj [(''format'', JStr ''pdf''), (''date'', JDate (Some 1577836800000))])
       else if raw = ''{format: pdf, date: 1969-07-20}'' then
         Inr (JObj [(''format'', JStr ''pdf''), (''date'', JDate (Some (- 14256000000)))])
       else if raw = ''{format: pdf, date: TBD}'' then
         Inr (JObj [(''format'', JStr ''pdf''), (''date'', JStr ''TBD'')])
       else if raw = ''{format: pdf}'' then Inr (JObj [(''format'', JStr ''pdf'')])
       else if raw = ''{title: Notes}'' then Inr (JObj [(''title'', JStr ''Notes'')])
       else if raw = ''{format: {toString: 1}}'' then
         Inr (JObj [(''format'', JObj [(''toString'', JNum (Fin 1))])])
       else if raw = [] then Inr JUndefined
       else Inl YAMLException),
     date_parse = (\<lambda>s. if s = ''2024-06-01'' then Some 1717200000000 else None),
     number_to_string = (\<lambda>q. []),
     date_to_string = (\<lambda>t. []) \<rparr>"

text \<open>The scenario of the specification: two dated sidecars in one project.\<close>

definition scenario_files :: "(string \<times> fsnode) list" where
  "scenario_files =
     [(''intro.yml'', File ''{format: pdf, date: 2024-01-01}''),
      (''update.yaml'', File ''{format: docx, date: 2024-06-01}'')]"

definition scenario_entries :: "(string \<times> fsnode) list" where
  "scenario_entries = [(''projectA'', dir scenario_files)]"

definition scenario_fs :: "fsnode option" where
  "scenario_fs = Some (dir scenario_entries)"

text \<open>A project with an unterminated mapping, an unreadable file and a sidecar without format.\<close>

definition damaged_files :: "(string \<times> fsnode) list" where
  "damaged_files =
     [(''bad.yml'', File ''{format: pdf''),
      (''locked.yaml'', NoReadFile),
      (''notes.yml'', File ''{title: Notes}''),
      (''intro.yml'', File ''{format: pdf, date: 2024-01-01}'')]"

definition damaged_entries :: "(string \<times> fsnode) list" where
  "damaged_entries = [(''projectA'', dir damaged_files), (''README.md'', File ''docs'')]"

definition damaged_fs :: "fsnode option" where
  "damaged_fs = Some (dir damaged_entries)"

text \<open>A date before 1970 next to a sidecar without date.\<close>

definition apollo_fs :: "fsnode option" where
  "apollo_fs = Some (dir [(''projectA'', dir
     [(''apollo.yml'', File ''{format: pdf, date: 1969-07-20}''),
      (''undated.yml'', File ''{format: pdf}'')])])"

text \<open>A date that does not parse between two that do.\<close>

definition tbd_fs :: "fsnode option" where
  "tbd_fs = Some (dir [(''projectA'', dir
     [(''a.yml'', File ''{format: pdf, date: 2020-01-01}''),
      (''b.yml'', File ''{format: pdf, date: TBD}''),
      (''c.yml'', File ''{format: docx, date: 2024-06-01}'')])])"

text \<open>The same sidecar named in upper case and in lower case, and one that is nothing but an extension.\<close>

definition upper_fs :: "fsnode option" where
  "upper_fs = Some (dir [(''projectA'', dir [(''REPORT.YML'', File ''{format: pdf}'')])])"

definition lower_fs :: "fsnode option" where
  "lower_fs = Some (dir [(''projectA'', dir [(''report.yml'', File ''{format: pdf}'')])])"

definition bare_fs :: "fsnode option" where
  "bare_fs = Some (dir [(''projectA'', dir [(''.yml'', File ''{format: pdf}'')])])"

text \<open>A format that has no string: the concatenation raises.\<close>

definition unprintable_fs :: "fsnode option" where
  "unprintable_fs = Some (dir [(''projectA'', dir
     [(''a.yml'', File ''{format: {toString: 1}}'')])])"

text \<open>The catalogs the builder returns for the scenario and for the damaged project.\<close>

definition scenario_docs :: "doc list" where
  "scenario_docs =
     [\<lparr> project = ''projectA'', filename = ''update.docx'', slug = ''update'',
        meta = JObj [(''format'', JStr ''docx''), (''date'', JDate (Some 1717200000000))],
        url = ''/docs/projectA/update.docx'' \<rparr>,
      \<lparr> project = ''projectA'', filename = ''intro.pdf'', slug = ''intro'',
        meta = JObj [(''format'', JStr ''pdf''), (''date'', JDate (Some 1704067200000))],
        url = ''/docs/projectA/intro.pdf'' \<rparr>]"

definition damaged_docs :: "doc list" where
  "damaged_docs =
     [\<lparr> project = ''projectA'', filename = ''intro.pdf'', slug = ''intro'',
        meta = JObj [(''format'', JStr ''pdf''), (''date'', JDate (Some 1704067200000))],
        url = ''/docs/projectA/intro.pdf'' \<rparr>,
      \<lparr> project = ''projectA'', filename = ''bad.undefined'', slug = ''bad'',
        meta = JObj [], url = ''/docs/projectA/bad.undefined'' \<rparr>,
      \<lparr> project = ''projectA'', filename = ''locked.undefined'', slug = ''locked'',
        meta = JObj [], url = ''/docs/projectA/locked.undefined'' \<rparr>,
      \<lparr> project = ''projectA'', filename = ''notes.undefined'', slug = ''notes'',
        meta = JObj [(''title'', JStr ''Notes'')], url = ''/docs/projectA/notes.undefined'' \<rparr>]"

section \<open>Auxiliary facts\<close>

subsection \<open>The sort\<close>

lemma mset_sort_insert: "sort_insert c x ys = Inr zs \<Longrightarrow> mset zs = add_mset x (mset ys)"
proof (induction ys arbitrary: zs)
  case Nil
  then show ?case by auto
next
  case (Cons y ys)
  then show ?case by (auto split: sum.splits if_splits)
qed

lemma mset_js_sort: "js_sort c xs = Inr ys \<Longrightarrow> mset ys = mset xs"
proof (induction xs arbitrary: ys)
  case Nil
  then show ?case by simp
next
  case (Cons x xs)
  then obtain ys' where ys': "js_sort c xs = Inr ys'" and ins: "sort_insert c x ys' = Inr ys"
    by (auto split: sum.splits)
  from Cons.IH [OF ys'] mset_sort_insert [OF ins] show ?case by simp
qed

lemma set_js_sort: "js_sort c xs = Inr ys \<Longrightarrow> set ys = set xs"
  by (drule mset_js_sort) (metis set_mset_mset)

lemma length_js_sort: "js_sort c xs = Inr ys \<Longrightarrow> length ys = length xs"
  by (drule mset_js_sort) (metis size_mset)

lemma sorted_sort_insert:
  assumes "sort_insert c x ys = Inr zs"
    and "\<forall>y\<in>set ys. c x y = Inr (Some (k y - k x))"
    and "sorted_wrt (\<lambda>a b. k b \<le> k a) ys"
  shows "sorted_wrt (\<lambda>a b. k b \<le> k a) zs"
  using assms
proof (induction ys arbitrary: zs)
  case Nil
  then show ?case by auto
next
  case (Cons y ys)
  from Cons.prems(2) have cxy: "c x y = Inr (Some (k y - k x))" by simp
  show ?case
  proof (cases "k y - k x \<le> 0")
    case True
    with Cons.prems(1) cxy have "zs = x # y # ys" by (simp add: sort_compare_def)
    with Cons.prems(3) True show ?thesis by force
  next
    case False
    with Cons.prems(1) cxy obtain zs' where
      zs': "sort_insert c x ys = Inr zs'" and zs: "zs = y # zs'"
      by (auto simp: sort_compare_def split: sum.splits)
    from Cons.prems have "sorted_wrt (\<lambda>a b. k b \<le> k a) zs'"
      by (intro Cons.IH [OF zs']) simp_all
    moreover have "set zs' = insert x (set ys)"
      using mset_sort_insert [OF zs'] by (metis set_mset_mset set_mset_add_mset_insert)
    ultimately show ?thesis using Cons.prems(3) False by (auto simp: zs)
  qed
qed

lemma sorted_js_sort:
  assumes "js_sort c xs = Inr ys"
    and "\<forall>x\<in>set xs. \<forall>y\<in>set xs. c x y = Inr (Some (k y - k x))"
  shows "sorted_wrt (\<lambda>a b. k b \<le> k a) ys"
  using assms
proof (induction xs arbitrary: ys)
  case Nil
  then show ?case by simp
next
  case (Cons x xs)
  from Cons.prems(1) obtain ys' where
    ys': "js_sort c xs = Inr ys'" and ins: "sort_insert c x ys' = Inr ys"
    by (auto split: sum.splits)
  from Cons.prems(2) have "sorted_wrt (\<lambda>a b. k b \<le> k a) ys'"
    by (intro Cons.IH [OF ys']) simp
  moreover from Cons.prems(2) have "\<forall>y\<in>set ys'. c x y = Inr (Some (k y - k x))"
    by (simp add: set_js_sort [OF ys'])
  ultimately show ?case by (intro sorted_sort_insert [OF ins])
qed

text \<open>
  When the sort raises: never on an array of at most one element, whose comparator is not
  called, and otherwise as soon as the comparator raises on one element.
\<close>

lemma js_sort_short: "length xs \<le> 1 \<Longrightarrow> js_sort c xs = Inr xs"
  by (cases xs) auto

lemma sort_insert_total:
  assumes "\<And>a b. ok a \<Longrightarrow> ok b \<Longrightarrow> \<exists>v. c a b = Inr v"
    and "ok x" and "\<forall>y\<in>set ys. ok y"
  shows "\<exists>zs. sort_insert c x ys = Inr zs"
  using assms(3)
proof (induction ys)
  case Nil
  show ?case by simp
next
  case (Cons y ys)
  then obtain zs where zs: "sort_insert c x ys = Inr zs" by auto
  from assms(1) [OF assms(2), of y] Cons.prems obtain v where "c x y = Inr v" by auto
  with zs show ?case by simp
qed

lemma js_sort_total:
  assumes "\<And>a b. ok a \<Longrightarrow> ok b \<Longrightarrow> \<exists>v. c a b = Inr v"
    and "\<forall>x\<in>set xs. ok x"
  shows "\<exists>ys. js_sort c xs = Inr ys"
  using assms(2)
proof (induction xs)
  case Nil
  show ?case by simp
next
  case (Cons x xs)
  then obtain ys where ys: "js_sort c xs = Inr ys" by auto
  from Cons.prems have "ok x" and "\<forall>y\<in>set ys. ok y"
    by (simp_all add: set_js_sort [OF ys])
  from sort_insert_total [of ok c, OF assms(1) this] ys show ?case by simp
qed

lemma sort_insert_compared:
  assumes "\<And>a b v. c a b = Inr v \<Longrightarrow> ok a \<and> ok b"
    and "sort_insert c x (y # ys) = Inr zs"
  shows "ok x \<and> ok y"
proof -
  from assms(2) obtain v where "c x y = Inr v" by (auto split: sum.splits)
  then show ?thesis by (rule assms(1))
qed

lemma js_sort_compared:
  assumes "\<And>a b v. c a b = Inr v \<Longrightarrow> ok a \<and> ok b"
    and "js_sort c xs = Inr ys" and "2 \<le> length xs"
  shows "\<forall>x\<in>set xs. ok x"
  using assms(2,3)
proof (induction xs arbitrary: ys)
  case Nil
  then show ?case by simp
next
  case (Cons x xs)
  from Cons.prems(1) obtain ys' where
    ys': "js_sort c xs = Inr ys'" and ins: "sort_insert c x ys' = Inr ys"
    by (auto split: sum.splits)
  from Cons.prems(2) length_js_sort [OF ys'] obtain y ys'' where y: "ys' = y # ys''"
    by (cases ys') auto
  from sort_insert_compared [of c ok, OF assms(1) ins [unfolded y]]
  have x: "ok x" and oky: "ok y" by simp_all
  have "\<forall>z\<in>set xs. ok z"
  proof (cases "2 \<le> length xs")
    case True
    then show ?thesis by (rule Cons.IH [OF ys'])
  next
    case False
    with Cons.prems(2) have "length xs = 1" by simp
    then obtain z where z: "xs = [z]" by (cases xs) auto
    with ys' have "ys' = [z]" by simp
    with y oky z show ?thesis by simp
  qed
  with x show ?case by simp
qed


subsection \<open>The loops\<close>

lemma make_doc_Inr:
  assumes "make_doc E fs p f = Inr r"
  shows "project r = p" and "slug r = replace_yaml_ext f"
    and "meta r = js_or (readYAML E fs (path_join (path_join PUBLIC_DOCS p) f)) (JObj [])"
    and "\<exists>s. to_string E (get_prop (meta r) ''format'') = Inr s
            \<and> filename r = replace_yaml_ext f @ ''.'' @ s"
    and "url r = ''/docs/'' @ p @ ''/'' @ filename r"
  using assms by (auto simp: make_doc_def Let_def split: sum.splits)

lemma file_loop_set:
  assumes "file_loop E fs p files acc = Inr out"
  shows "set out = set acc \<union> {r. \<exists>f\<in>set files. make_doc E fs p f = Inr r}"
  using assms
proof (induction files arbitrary: acc)
  case Nil
  then show ?case by simp
next
  case (Cons f files)
  then obtain d where d: "make_doc E fs p f = Inr d"
    and rest: "file_loop E fs p files (acc @ [d]) = Inr out"
    by (auto split: sum.splits)
  show ?case unfolding Cons.IH [OF rest] using d by auto
qed

lemma file_loop_all:
  assumes "file_loop E fs p files acc = Inr out" and "f \<in> set files"
  shows "\<exists>r. make_doc E fs p f = Inr r"
  using assms
proof (induction files arbitrary: acc)
  case Nil
  then show ?case by simp
next
  case (Cons g files)
  then obtain d where d: "make_doc E fs p g = Inr d"
    and rest: "file_loop E fs p files (acc @ [d]) = Inr out"
    by (auto split: sum.splits)
  show ?case
  proof (cases "f = g")
    case True
    with d show ?thesis by blast
  next
    case False
    with Cons.prems(2) have "f \<in> set files" by simp
    then show ?thesis by (rule Cons.IH [OF rest])
  qed
qed

lemma project_loop_set:
  assumes "project_loop E fs ps acc = Inr out"
  shows "set out = set acc \<union>
           {r. \<exists>p\<in>set ps. \<exists>ds f. readdirSync fs (path_join PUBLIC_DOCS p) = Inr ds
                  \<and> f \<in> set (yaml_files ds) \<and> make_doc E fs p f = Inr r}"
  using assms
proof (induction ps arbitrary: acc)
  case Nil
  then show ?case by simp
next
  case (Cons p ps)
  then obtain ds acc' where ds: "readdirSync fs (path_join PUBLIC_DOCS p) = Inr ds"
    and fl: "file_loop E fs p (yaml_files ds) acc = Inr acc'"
    and rest: "project_loop E fs ps acc' = Inr out"
    by (auto split: sum.splits)
  note IH = Cons.IH [OF rest]
  note here = file_loop_set [OF fl]
  show ?case unfolding IH here using ds by auto
qed

lemma project_loop_produced:
  assumes "project_loop E fs ps acc = Inr out" and "p \<in> set ps"
    and "readdirSync fs (path_join PUBLIC_DOCS p) = Inr ds" and "f \<in> set (yaml_files ds)"
  shows "\<exists>r. make_doc E fs p f = Inr r"
  using assms(1,2)
proof (induction ps arbitrary: acc)
  case Nil
  then show ?case by simp
next
  case (Cons q ps)
  then obtain qs acc' where qs: "readdirSync fs (path_join PUBLIC_DOCS q) = Inr qs"
    and fl: "file_loop E fs q (yaml_files qs) acc = Inr acc'"
    and rest: "project_loop E fs ps acc' = Inr out"
    by (auto split: sum.splits)
  show ?case
  proof (cases "q = p")
    case True
    with qs assms(3) have "qs = ds" by simp
    with file_loop_all [OF fl] assms(4) True show ?thesis by blast
  next
    case False
    with Cons.prems(2) have "p \<in> set ps" by simp
    then show ?thesis by (rule Cons.IH [OF rest])
  qed
qed

text \<open>What a successful run consists of.\<close>

lemma getAllDocs_Inr:
  assumes "getAllDocs E fs = Inr out"
  shows "(\<not> existsSync fs PUBLIC_DOCS \<and> out = []) \<or>
         (existsSync fs PUBLIC_DOCS \<and> (\<exists>ds projects. readdirSync fs PUBLIC_DOCS = Inr ds
            \<and> project_loop E fs (map fst (filter isDirectory ds)) [] = Inr projects
            \<and> js_sort (compare_docs E) projects = Inr out))"
proof (cases "existsSync fs PUBLIC_DOCS")
  case False
  with assms show ?thesis by (simp add: getAllDocs_def)
next
  case True
  show ?thesis
  proof (cases "readdirSync fs PUBLIC_DOCS")
    case (Inl e)
    with assms True show ?thesis by (simp add: getAllDocs_def)
  next
    case (Inr ds)
    show ?thesis
    proof (cases "project_loop E fs (map fst (filter isDirectory ds)) []")
      case (Inl e)
      with assms True \<open>readdirSync fs PUBLIC_DOCS = Inr ds\<close> show ?thesis
        by (simp add: getAllDocs_def)
    next
      case (Inr projects)
      with assms True \<open>readdirSync fs PUBLIC_DOCS = Inr ds\<close> show ?thesis
        by (simp add: getAllDocs_def)
    qed
  qed
qed

lemma in_project_names: "p \<in> set (map fst (filter isDirectory ds)) \<longleftrightarrow> (p, KDir) \<in> set ds"
  by (force simp: isDirectory_def)

text \<open>Where a record of the output comes from, and that every listed sidecar has one.\<close>

lemma getAllDocs_origin:
  assumes "getAllDocs E fs = Inr out" and "r \<in> set out"
  shows "\<exists>ds p fds f. readdirSync fs PUBLIC_DOCS = Inr ds \<and> (p, KDir) \<in> set ds
           \<and> readdirSync fs (path_join PUBLIC_DOCS p) = Inr fds
           \<and> f \<in> set (yaml_files fds) \<and> make_doc E fs p f = Inr r"
proof -
  from getAllDocs_Inr [OF assms(1)] assms(2) obtain ds projects where
    ds: "readdirSync fs PUBLIC_DOCS = Inr ds"
    and pl: "project_loop E fs (map fst (filter isDirectory ds)) [] = Inr projects"
    and out: "js_sort (compare_docs E) projects = Inr out"
    by fastforce
  from assms(2) set_js_sort [OF out] have "r \<in> set projects" by simp
  then have "r \<in> {r. \<exists>p\<in>set (map fst (filter isDirectory ds)). \<exists>fds f.
                  readdirSync fs (path_join PUBLIC_DOCS p) = Inr fds
                  \<and> f \<in> set (yaml_files fds) \<and> make_doc E fs p f = Inr r}"
    unfolding project_loop_set [OF pl] by simp
  then obtain p fds f where "p \<in> set (map fst (filter isDirectory ds))"
    and "readdirSync fs (path_join PUBLIC_DOCS p) = Inr fds"
    and "f \<in> set (yaml_files fds)" and "make_doc E fs p f = Inr r"
    by blast
  with ds show ?thesis unfolding in_project_names by blast
qed

lemma getAllDocs_produced:
  assumes "getAllDocs E fs = Inr out"
    and "readdirSync fs PUBLIC_DOCS = Inr ds" and "(p, KDir) \<in> set ds"
    and "readdirSync fs (path_join PUBLIC_DOCS p) = Inr fds" and "f \<in> set (yaml_files fds)"
  shows "\<exists>r\<in>set out. make_doc E fs p f = Inr r"
proof -
  from assms(2) have ex: "existsSync fs PUBLIC_DOCS"
    by (auto simp: readdirSync_def existsSync_def split: option.splits)
  with getAllDocs_Inr [OF assms(1)] assms(2) obtain projects where
    pl: "project_loop E fs (map fst (filter isDirectory ds)) [] = Inr projects"
    and out: "js_sort (compare_docs E) projects = Inr out"
    by auto
  from assms(3) have p: "p \<in> set (map fst (filter isDirectory ds))"
    unfolding in_project_names .
  from project_loop_produced [OF pl p assms(4,5)] obtain r where r: "make_doc E fs p f = Inr r"
    by blast
  with p assms(4,5) have "r \<in> set projects"
    unfolding project_loop_set [OF pl] by blast
  with set_js_sort [OF out] r show ?thesis by auto
qed


subsection \<open>Names and extensions\<close>

lemma endsWith_iff: "endsWith s t \<longleftrightarrow> (\<exists>stem. s = stem @ t)"
proof
  assume "endsWith s t"
  then have "s = take (length s - length t) s @ t"
    by (metis append_take_drop_id endsWith_def)
  then show "\<exists>stem. s = stem @ t" ..
next
  assume "\<exists>stem. s = stem @ t"
  then show "endsWith s t" by (auto simp: endsWith_def)
qed

lemma toLowerCase_append: "toLowerCase (a @ b) = toLowerCase a @ toLowerCase b"
  by (simp add: toLowerCase_def)

lemma toLowerCase_yml: "toLowerCase ''.yml'' = ''.yml''"
  by (simp add: toLowerCase_def toLowerCase_char_def)

lemma toLowerCase_yaml: "toLowerCase ''.yaml'' = ''.yaml''"
  by (simp add: toLowerCase_def toLowerCase_char_def)

lemma replace_yaml_ext_yml: "replace_yaml_ext (stem @ ''.yml'') = stem"
proof -
  have "endsWith (toLowerCase (stem @ ''.yml'')) ''.yml''"
    unfolding endsWith_iff toLowerCase_append toLowerCase_yml by blast
  then show ?thesis by (simp add: replace_yaml_ext_def)
qed

lemma replace_yaml_ext_yaml: "replace_yaml_ext (stem @ ''.yaml'') = stem"
proof -
  have "endsWith (toLowerCase (stem @ ''.yaml'')) ''.yaml''"
    unfolding endsWith_iff toLowerCase_append toLowerCase_yaml by blast
  moreover have "\<not> endsWith (toLowerCase (stem @ ''.yaml'')) ''.yml''"
    unfolding toLowerCase_append toLowerCase_yaml
    by (simp add: endsWith_def toLowerCase_def)
  ultimately show ?thesis by (simp add: replace_yaml_ext_def)
qed

lemma is_sidecar_iff:
  "is_sidecar (name, k) \<longleftrightarrow> k = KFile \<and> (\<exists>stem. name = stem @ ''.yml'' \<or> name = stem @ ''.yaml'')"
  unfolding is_sidecar_def isFile_def endsWith_iff by auto


lemma in_yaml_files:
  "f \<in> set (yaml_files ds) \<longleftrightarrow>
     (f, KFile) \<in> set ds \<and> (\<exists>stem. f = stem @ ''.yml'' \<or> f = stem @ ''.yaml'')"
proof -
  have "f \<in> set (yaml_files ds) \<longleftrightarrow> (\<exists>k. (f, k) \<in> set ds \<and> is_sidecar (f, k))"
    by (force simp: yaml_files_def)
  then show ?thesis by (auto simp: is_sidecar_iff)
qed

lemma replace_yaml_ext_stem:
  assumes "f = stem @ ''.yml'' \<or> f = stem @ ''.yaml''"
  shows "replace_yaml_ext f = stem"
  using assms by (auto simp: replace_yaml_ext_yml replace_yaml_ext_yaml)

subsection \<open>Paths\<close>

lemma resolve_root: "resolve fs PUBLIC_DOCS = fs"
  by (simp add: resolve_def PUBLIC_DOCS_def)

lemma resolve_project:
  "resolve (Some (Dir L look)) (path_join PUBLIC_DOCS p) = look p"
  by (simp add: resolve_def PUBLIC_DOCS_def path_join_def)

lemma readdirSync_root_Inr:
  assumes "readdirSync fs PUBLIC_DOCS = Inr ds"
  shows "\<exists>look. fs = Some (Dir ds look)"
proof (cases fs)
  case None
  with assms show ?thesis by (simp add: readdirSync_def resolve_root)
next
  case (Some n)
  with assms show ?thesis by (cases n) (simp_all add: readdirSync_def resolve_root)
qed

lemma readdirSync_project_Inr:
  assumes "readdirSync (Some (Dir L look)) (path_join PUBLIC_DOCS p) = Inr fds"
  shows "\<exists>lookp. look p = Some (Dir fds lookp)"
proof (cases "look p")
  case None
  with assms show ?thesis by (simp add: readdirSync_def resolve_project)
next
  case (Some n)
  with assms show ?thesis by (cases n) (simp_all add: readdirSync_def resolve_project)
qed

lemma getAllDocs_record:
  assumes "getAllDocs E fs = Inr out" and "r \<in> set out"
  shows "\<exists>L look Lp lookp f. fs = Some (Dir L look) \<and> (project r, KDir) \<in> set L
           \<and> look (project r) = Some (Dir Lp lookp) \<and> (f, KFile) \<in> set Lp
           \<and> (f = slug r @ ''.yml'' \<or> f = slug r @ ''.yaml'')
           \<and> make_doc E fs (project r) f = Inr r"
proof -
  from getAllDocs_origin [OF assms] obtain L p Lp f where
    L: "readdirSync fs PUBLIC_DOCS = Inr L" and p: "(p, KDir) \<in> set L"
    and Lp: "readdirSync fs (path_join PUBLIC_DOCS p) = Inr Lp"
    and f: "f \<in> set (yaml_files Lp)" and r: "make_doc E fs p f = Inr r"
    by blast
  from readdirSync_root_Inr [OF L] obtain look where fs: "fs = Some (Dir L look)" by blast
  from readdirSync_project_Inr [OF Lp [unfolded fs]] obtain lookp where
    lookp: "look p = Some (Dir Lp lookp)"
    by blast
  from f obtain stem where isfile: "(f, KFile) \<in> set Lp"
    and stem: "f = stem @ ''.yml'' \<or> f = stem @ ''.yaml''"
    unfolding in_yaml_files by blast
  from make_doc_Inr(1,2) [OF r] replace_yaml_ext_stem [OF stem]
  have pr: "project r = p" and sl: "slug r = stem" by simp_all
  from fs p lookp isfile stem r show ?thesis unfolding sl pr by blast
qed

section \<open>Ordering of the catalog\<close>

lemma sort_date_undated: "\<not> truthy (get_prop (meta r) ''date'') \<Longrightarrow> sort_date E r = Some 0"
  by (simp add: sort_date_def date_or_epoch_def time_clip_def)

lemma sort_date_Some: "sort_date E r = Some t \<Longrightarrow> date_or_epoch E r = Inr (Some t)"
  by (cases "date_or_epoch E r") (simp_all add: sort_date_def)

lemma getAllDocs_sorted_wrt:
  assumes "getAllDocs E fs = Inr out" and "\<forall>r\<in>set out. sort_date E r \<noteq> None"
  shows "sorted_wrt (\<lambda>a b. the (sort_date E b) \<le> the (sort_date E a)) out"
proof (cases "out = []")
  case True
  then show ?thesis by simp
next
  case False
  with getAllDocs_Inr [OF assms(1)] obtain projects where
    out: "js_sort (compare_docs E) projects = Inr out"
    by blast
  have "compare_docs E x y = Inr (Some (the (sort_date E y) - the (sort_date E x)))"
    if "x \<in> set projects" and "y \<in> set projects" for x y
  proof -
    from that assms(2) have "sort_date E x \<noteq> None" and "sort_date E y \<noteq> None"
      by (simp_all add: set_js_sort [OF out])
    then obtain a b where a: "sort_date E x = Some a" and b: "sort_date E y = Some b"
      by blast
    from sort_date_Some [OF a] sort_date_Some [OF b] a b show ?thesis
      by (simp add: compare_docs_def)
  qed
  then have "\<forall>x\<in>set projects. \<forall>y\<in>set projects.
          compare_docs E x y = Inr (Some (the (sort_date E y) - the (sort_date E x)))"
    by blast
  with out show ?thesis by (rule sorted_js_sort)
qed

text \<open>
  Claim C1, as amended. In every catalog in which each record's date is valid (a missing
  or falsy \<open>meta.date\<close> counts as the epoch, which is valid), adjacent records are in
  descending order of date: \<open>date(A) >= date(B)\<close> for \<open>A\<close> right before \<open>B\<close>.
\<close>

theorem catalog_sorted_by_date_desc:
  assumes "getAllDocs E fs = Inr out" and "\<forall>r\<in>set out. sort_date E r \<noteq> None"
  shows "(\<forall>i. Suc i < length out \<longrightarrow> js_ge (sort_date E (out ! i)) (sort_date E (out ! Suc i)))
       \<and> (\<forall>r\<in>set out. \<not> truthy (get_prop (meta r) ''date'') \<longrightarrow> sort_date E r = Some 0)"
proof -
  have "js_ge (sort_date E (out ! i)) (sort_date E (out ! Suc i))" if "Suc i < length out" for i
  proof -
    from that assms(2) obtain ta tb where
      t: "sort_date E (out ! i) = Some ta" "sort_date E (out ! Suc i) = Some tb"
      by (metis Suc_lessD not_None_eq nth_mem)
    from getAllDocs_sorted_wrt [OF assms] that
    have "the (sort_date E (out ! Suc i)) \<le> the (sort_date E (out ! i))"
      by (simp add: sorted_wrt_iff_nth_less)
    with t show ?thesis by (simp add: js_ge_def)
  qed
  then show ?thesis by (simp add: sort_date_undated)
qed

text \<open>The scenario of the specification: \<open>update\<close> (June 2024) before \<open>intro\<close> (January 2024).\<close>

lemma scenario_run: "getAllDocs sample_env scenario_fs = Inr scenario_docs"
  by code_simp

theorem catalog_sorted_by_date_desc_witness:
  "getAllDocs sample_env scenario_fs = Inr scenario_docs
   \<and> list_all (\<lambda>r. sort_date sample_env r \<noteq> None) scenario_docs
   \<and> js_ge (sort_date sample_env (scenario_docs ! 0)) (sort_date sample_env (scenario_docs ! Suc 0))"
proof -
  have run: "getAllDocs sample_env scenario_fs = Inr scenario_docs"
    by (rule scenario_run)
  have valid: "\<forall>r\<in>set scenario_docs. sort_date sample_env r \<noteq> None"
    by (simp add: scenario_docs_def sort_date_def date_or_epoch_def)
  then have valid': "list_all (\<lambda>r. sort_date sample_env r \<noteq> None) scenario_docs"
    by (simp only: list_all_iff)
  have two: "Suc 0 < length scenario_docs"
    by (simp add: scenario_docs_def)
  from catalog_sorted_by_date_desc [OF run valid]
  have "Suc 0 < length scenario_docs \<longrightarrow>
      js_ge (sort_date sample_env (scenario_docs ! 0)) (sort_date sample_env (scenario_docs ! Suc 0))"
    by (rule conjunct1 [THEN spec])
  from this two
  have adjacent:
    "js_ge (sort_date sample_env (scenario_docs ! 0)) (sort_date sample_env (scenario_docs ! Suc 0))"
    by (rule mp)
  show ?thesis by (rule conjI [OF run conjI [OF valid' adjacent]])
qed

text \<open>
  Claim C1 as stated fails when a date does not parse: the comparator then yields \<open>NaN\<close>
  against every other record, nothing moves, and 2020 stays before \<open>TBD\<close> before 2024.
\<close>

theorem catalog_sorted_by_date_desc_counterexample:
  "(case getAllDocs sample_env tbd_fs of
      Inl e \<Rightarrow> False
    | Inr out \<Rightarrow>
        map slug out = [''a'', ''b'', ''c'']
        \<and> map (sort_date sample_env) out = [Some 1577836800000, None, Some 1717200000000]
        \<and> \<not> js_ge (sort_date sample_env (out ! 0)) (sort_date sample_env (out ! Suc 0)))"
  by code_simp

text \<open>
  Claim C2, as amended. In every catalog in which each record's date is valid, a record
  without \<open>date\<close> field comes after every record whose \<open>date\<close> field is a date later than
  the epoch (1 January 1970).
\<close>

theorem undated_after_dated_later_than_epoch:
  assumes "getAllDocs E fs = Inr out" and "\<forall>r\<in>set out. sort_date E r \<noteq> None"
    and "i < length out" and "j < length out"
    and "get_prop (meta (out ! i)) ''date'' = JUndefined"
    and "truthy (get_prop (meta (out ! j)) ''date'')"
    and "new_Date E (get_prop (meta (out ! j)) ''date'') = Inr (Some t)" and "0 < t"
  shows "j < i"
proof (rule ccontr)
  assume "\<not> j < i"
  then have "i \<le> j" by simp
  have i0: "sort_date E (out ! i) = Some 0"
    using assms(5) by (simp add: sort_date_undated)
  have jt: "sort_date E (out ! j) = Some t"
    using assms(6,7) by (simp add: sort_date_def date_or_epoch_def)
  from i0 jt assms(8) have "i \<noteq> j" by auto
  with \<open>i \<le> j\<close> have "i < j" by simp
  with getAllDocs_sorted_wrt [OF assms(1,2)] assms(4)
  have "the (sort_date E (out ! j)) \<le> the (sort_date E (out ! i))"
    by (simp add: sorted_wrt_iff_nth_less)
  with i0 jt assms(8) show False by simp
qed

lemma damaged_run: "getAllDocs sample_env damaged_fs = Inr damaged_docs"
  by code_simp

theorem undated_after_dated_later_than_epoch_witness:
  "getAllDocs sample_env damaged_fs = Inr damaged_docs
   \<and> list_all (\<lambda>r. sort_date sample_env r \<noteq> None) damaged_docs
   \<and> Suc 0 < length damaged_docs \<and> 0 < length damaged_docs
   \<and> get_prop (meta (damaged_docs ! Suc 0)) ''date'' = JUndefined
   \<and> truthy (get_prop (meta (damaged_docs ! 0)) ''date'')
   \<and> new_Date sample_env (get_prop (meta (damaged_docs ! 0)) ''date'') = Inr (Some 1704067200000)
   \<and> (0::int) < 1704067200000 \<and> (0::nat) < Suc 0"
proof -
  have run: "getAllDocs sample_env damaged_fs = Inr damaged_docs"
    by (rule damaged_run)
  have valid: "\<forall>r\<in>set damaged_docs. sort_date sample_env r \<noteq> None"
    by (simp add: damaged_docs_def sort_date_def date_or_epoch_def time_clip_def)
  then have valid': "list_all (\<lambda>r. sort_date sample_env r \<noteq> None) damaged_docs"
    by (simp only: list_all_iff)
  have i: "Suc 0 < length damaged_docs" and j: "0 < length damaged_docs"
    by (simp_all add: damaged_docs_def)
  have und: "get_prop (meta (damaged_docs ! Suc 0)) ''date'' = JUndefined"
    by (simp add: damaged_docs_def)
  have tr: "truthy (get_prop (meta (damaged_docs ! 0)) ''date'')"
    by (simp add: damaged_docs_def)
  have tm: "new_Date sample_env (get_prop (meta (damaged_docs ! 0)) ''date'') = Inr (Some 1704067200000)"
    by (simp add: damaged_docs_def)
  have pos: "(0::int) < 1704067200000" by simp
  from undated_after_dated_later_than_epoch [OF run valid i j und tr tm pos]
  have order: "(0::nat) < Suc 0" .
  show ?thesis
    by (rule conjI [OF run conjI [OF valid' conjI [OF i conjI [OF j conjI [OF und
          conjI [OF tr conjI [OF tm conjI [OF pos order]]]]]]]])
qed

text \<open>
  Claim C2 as stated fails for a date before 1970: the sidecar without date counts as
  the epoch and is listed before the one dated 20 July 1969.
\<close>

theorem undated_after_dated_counterexample:
  "map_sum id (map (\<lambda>r. (slug r, get_prop (meta r) ''date''))) (getAllDocs sample_env apollo_fs)
     = Inr [(''undated'', JUndefined), (''apollo'', JDate (Some (- 14256000000)))]"
  by code_simp

section \<open>Missing or empty root\<close>

text \<open>
  Claim C7. When nothing exists at the root path, and when the root is a directory without
  entries, the builder returns the empty catalog and raises nothing.
\<close>

theorem missing_or_empty_root:
  "getAllDocs E None = Inr [] \<and> getAllDocs E (Some (Dir [] look)) = Inr []"
  by (simp add: getAllDocs_def existsSync_def readdirSync_def resolve_def PUBLIC_DOCS_def)

section \<open>Selection of the sidecar files\<close>

text \<open>
  Claim C3. A sidecar named with an upper-case extension should be selected like its
  lower-case twin. It is not: for the project holding only \<open>REPORT.YML\<close> the builder
  returns the empty catalog, where \<open>report.yml\<close> with the same text gives a record; the
  expression that strips the extension, two lines further, would take \<open>.YML\<close> off.
\<close>

theorem uppercase_sidecar_is_skipped:
  "getAllDocs sample_env upper_fs = Inr []
   \<and> map_sum id (map url) (getAllDocs sample_env lower_fs) = Inr [''/docs/projectA/report.pdf'']
   \<and> replace_yaml_ext ''REPORT.YML'' = ''REPORT''
   \<and> endsWith (toLowerCase ''REPORT.YML'') ''.yml''
   \<and> \<not> is_sidecar (''REPORT.YML'', KFile)"
  by code_simp

section \<open>Provenance of the records\<close>

text \<open>
  Claim C8, as amended. Every record has a \<open>project\<close> and a \<open>slug\<close>: the project is the
  name of a subdirectory of the root, and the slug is the name of a regular file of that
  subdirectory without its \<open>.yml\<close> or \<open>.yaml\<close>. The slug is empty exactly when the file
  is named \<open>.yml\<close> or \<open>.yaml\<close>.
\<close>

theorem project_and_slug_from_names:
  assumes "getAllDocs E fs = Inr out" and "r \<in> set out"
  shows "\<exists>L look Lp lookp f. fs = Some (Dir L look) \<and> (project r, KDir) \<in> set L
           \<and> look (project r) = Some (Dir Lp lookp) \<and> (f, KFile) \<in> set Lp
           \<and> (f = slug r @ ''.yml'' \<or> f = slug r @ ''.yaml'')
           \<and> (slug r = [] \<longleftrightarrow> f = ''.yml'' \<or> f = ''.yaml'')"
proof -
  from getAllDocs_record [OF assms] obtain L look Lp lookp f where
    h: "fs = Some (Dir L look)" "(project r, KDir) \<in> set L"
      "look (project r) = Some (Dir Lp lookp)" "(f, KFile) \<in> set Lp"
    and f: "f = slug r @ ''.yml'' \<or> f = slug r @ ''.yaml''"
    by blast
  from f have "slug r = [] \<longleftrightarrow> f = ''.yml'' \<or> f = ''.yaml''" by auto
  with h f show ?thesis by blast
qed

theorem project_and_slug_from_names_witness:
  "getAllDocs sample_env scenario_fs = Inr scenario_docs
   \<and> scenario_docs ! 0 \<in> set scenario_docs
   \<and> (\<exists>L look Lp lookp f. scenario_fs = Some (Dir L look)
           \<and> (project (scenario_docs ! 0), KDir) \<in> set L
           \<and> look (project (scenario_docs ! 0)) = Some (Dir Lp lookp) \<and> (f, KFile) \<in> set Lp
           \<and> (f = slug (scenario_docs ! 0) @ ''.yml'' \<or> f = slug (scenario_docs ! 0) @ ''.yaml'')
           \<and> (slug (scenario_docs ! 0) = [] \<longleftrightarrow> f = ''.yml'' \<or> f = ''.yaml''))"
proof -
  have run: "getAllDocs sample_env scenario_fs = Inr scenario_docs"
    by (rule scenario_run)
  have mem: "scenario_docs ! 0 \<in> set scenario_docs"
    by (simp add: scenario_docs_def)
  note c = project_and_slug_from_names [OF run mem]
  show ?thesis by (rule conjI [OF run conjI [OF mem c]])
qed

text \<open>
  Claim C8 as stated fails for a sidecar named \<open>.yml\<close>: its record has the empty slug.
\<close>

theorem empty_slug_counterexample:
  "map_sum id (map (\<lambda>r. (project r, slug r))) (getAllDocs sample_env bare_fs) = Inr [(''projectA'', [])]"
  by code_simp

section \<open>The derived fields\<close>

text \<open>
  Claim C5. Every record's \<open>url\<close> is \<open>/docs/{project}/{slug}.{format}\<close>, where the
  project is the name of the subdirectory, the slug is the sidecar's name without its YAML
  extension and the format is the \<open>format\<close> field of the metadata as \<open>+\<close> converts it to a
  string: the field itself when it is a string.
\<close>

theorem url_is_docs_project_slug_format:
  assumes "getAllDocs E fs = Inr out" and "r \<in> set out"
  shows "(\<exists>L look Lp lookp f. fs = Some (Dir L look) \<and> (project r, KDir) \<in> set L
            \<and> look (project r) = Some (Dir Lp lookp) \<and> (f, KFile) \<in> set Lp
            \<and> (f = slug r @ ''.yml'' \<or> f = slug r @ ''.yaml''))
       \<and> (\<exists>s. to_string E (get_prop (meta r) ''format'') = Inr s
              \<and> url r = ''/docs/'' @ project r @ ''/'' @ slug r @ ''.'' @ s)
       \<and> (\<forall>fmt. get_prop (meta r) ''format'' = JStr fmt \<longrightarrow>
             url r = ''/docs/'' @ project r @ ''/'' @ slug r @ ''.'' @ fmt)"
proof -
  from getAllDocs_record [OF assms] obtain L look Lp lookp f where
    h: "fs = Some (Dir L look)" "(project r, KDir) \<in> set L"
      "look (project r) = Some (Dir Lp lookp)" "(f, KFile) \<in> set Lp"
      "f = slug r @ ''.yml'' \<or> f = slug r @ ''.yaml''"
    and r: "make_doc E fs (project r) f = Inr r"
    by blast
  from make_doc_Inr(2,4,5) [OF r] obtain s where
    s: "to_string E (get_prop (meta r) ''format'') = Inr s"
    and u: "url r = ''/docs/'' @ project r @ ''/'' @ slug r @ ''.'' @ s"
    by auto
  then have "\<forall>fmt. get_prop (meta r) ''format'' = JStr fmt \<longrightarrow>
             url r = ''/docs/'' @ project r @ ''/'' @ slug r @ ''.'' @ fmt"
    by auto
  with h s u show ?thesis by blast
qed

theorem url_is_docs_project_slug_format_witness:
  "getAllDocs sample_env scenario_fs = Inr scenario_docs
   \<and> scenario_docs ! 0 \<in> set scenario_docs
   \<and> get_prop (meta (scenario_docs ! 0)) ''format'' = JStr ''docx''
   \<and> url (scenario_docs ! 0) =
        ''/docs/'' @ project (scenario_docs ! 0) @ ''/'' @ slug (scenario_docs ! 0) @ ''.'' @ ''docx''
   \<and> url (scenario_docs ! 0) = ''/docs/projectA/update.docx''"
proof -
  have run: "getAllDocs sample_env scenario_fs = Inr scenario_docs"
    by (rule scenario_run)
  have mem: "scenario_docs ! 0 \<in> set scenario_docs"
    by (simp add: scenario_docs_def)
  have fmt: "get_prop (meta (scenario_docs ! 0)) ''format'' = JStr ''docx''"
    by (simp add: scenario_docs_def)
  from url_is_docs_project_slug_format [OF run mem]
  have "\<forall>fmt. get_prop (meta (scenario_docs ! 0)) ''format'' = JStr fmt \<longrightarrow>
          url (scenario_docs ! 0) =
            ''/docs/'' @ project (scenario_docs ! 0) @ ''/'' @ slug (scenario_docs ! 0) @ ''.'' @ fmt"
    by (rule conjunct2 [THEN conjunct2])
  then have "get_prop (meta (scenario_docs ! 0)) ''format'' = JStr ''docx'' \<longrightarrow>
          url (scenario_docs ! 0) =
            ''/docs/'' @ project (scenario_docs ! 0) @ ''/'' @ slug (scenario_docs ! 0) @ ''.'' @ ''docx''"
    by (rule spec)
  from this fmt have u: "url (scenario_docs ! 0) =
        ''/docs/'' @ project (scenario_docs ! 0) @ ''/'' @ slug (scenario_docs ! 0) @ ''.'' @ ''docx''"
    by (rule mp)
  have v: "url (scenario_docs ! 0) = ''/docs/projectA/update.docx''"
    by (simp add: scenario_docs_def)
  show ?thesis by (rule conjI [OF run conjI [OF mem conjI [OF fmt conjI [OF u v]]]])
qed



section \<open>Sidecars that cannot be read or parsed\<close>

lemma resolve_one:
  "resolve fs (path_join PUBLIC_DOCS q) = Option.bind fs (\<lambda>n. child n q)"
  by (simp add: resolve_def PUBLIC_DOCS_def path_join_def)

lemma resolve_two:
  "resolve fs (path_join (path_join PUBLIC_DOCS q) g) =
     Option.bind (Option.bind fs (\<lambda>n. child n q)) (\<lambda>n. child n g)"
  by (simp add: resolve_def PUBLIC_DOCS_def path_join_def)

lemma put_file_cases:
  obtains (same) "put_file fs p f b = fs"
      and "\<forall>g. Option.bind (Option.bind fs (\<lambda>n. child n p)) (\<lambda>n. child n g) = None"
    | (put) L look Lp lookp where "fs = Some (Dir L look)" and "look p = Some (Dir Lp lookp)"
      and "put_file fs p f b = Some (Dir L (look(p \<mapsto> Dir Lp (lookp(f := b)))))"
proof (cases fs)
  case None
  then show ?thesis by (intro same) (simp_all add: put_file_def)
next
  case (Some n)
  show ?thesis
  proof (cases n)
    case (Dir L look)
    show ?thesis
    proof (cases "look p")
      case None
      with Some Dir show ?thesis by (intro same) (simp_all add: put_file_def)
    next
      case (Some m)
      show ?thesis
      proof (cases m)
        case (Dir Lp lookp)
        with \<open>fs = Some n\<close> \<open>n = Dir L look\<close> \<open>look p = Some m\<close> show ?thesis
          by (intro put) (simp_all add: put_file_def)
      qed (use \<open>fs = Some n\<close> \<open>n = Dir L look\<close> \<open>look p = Some m\<close>
            in \<open>(intro same; simp add: put_file_def)+\<close>)
    qed
  qed (use Some in \<open>(intro same; simp add: put_file_def)+\<close>)
qed

lemma readdirSync_put_file:
  "readdirSync (put_file fs p f b) PUBLIC_DOCS = readdirSync fs PUBLIC_DOCS"
  "readdirSync (put_file fs p f b) (path_join PUBLIC_DOCS q) = readdirSync fs (path_join PUBLIC_DOCS q)"
  "existsSync (put_file fs p f b) PUBLIC_DOCS = existsSync fs PUBLIC_DOCS"
proof -
  show "readdirSync (put_file fs p f b) PUBLIC_DOCS = readdirSync fs PUBLIC_DOCS"
    by (rule put_file_cases [where fs = fs and p = p and f = f and b = b]) (simp_all add: readdirSync_def resolve_root)
  show "readdirSync (put_file fs p f b) (path_join PUBLIC_DOCS q) = readdirSync fs (path_join PUBLIC_DOCS q)"
    by (rule put_file_cases [where fs = fs and p = p and f = f and b = b]) (simp_all add: readdirSync_def resolve_one)
  show "existsSync (put_file fs p f b) PUBLIC_DOCS = existsSync fs PUBLIC_DOCS"
    by (rule put_file_cases [where fs = fs and p = p and f = f and b = b]) (simp_all add: existsSync_def resolve_root)
qed

lemma resolve_put_file_other:
  assumes "(q, g) \<noteq> (p, f)"
  shows "resolve (put_file fs p f b) (path_join (path_join PUBLIC_DOCS q) g) =
         resolve fs (path_join (path_join PUBLIC_DOCS q) g)"
proof (rule put_file_cases [where fs = fs and p = p and f = f and b = b])
  assume "put_file fs p f b = fs"
  then show ?thesis by simp
next
  fix L look Lp lookp
  assume "fs = Some (Dir L look)" and "look p = Some (Dir Lp lookp)"
    and "put_file fs p f b = Some (Dir L (look(p \<mapsto> Dir Lp (lookp(f := b)))))"
  with assms show ?thesis by (auto simp: resolve_two)
qed

lemma resolve_put_file_same:
  "resolve (put_file fs p f b) (path_join (path_join PUBLIC_DOCS p) f) = b \<or>
   resolve (put_file fs p f b) (path_join (path_join PUBLIC_DOCS p) f) = None"
  by (rule put_file_cases [where fs = fs and p = p and f = f and b = b]) (simp_all add: resolve_two)

lemma readYAML_broken:
  assumes "broken E (resolve fs filePath)"
  shows "readYAML E fs filePath = JObj []"
proof (cases "resolve fs filePath")
  case None
  then show ?thesis by (simp add: readYAML_def readFileSync_def)
next
  case (Some n)
  show ?thesis
  proof (cases n)
    case (File raw)
    with assms Some obtain e where "yaml_load E raw = Inl e"
      by (cases "yaml_load E raw") (simp_all add: broken_def)
    with File Some show ?thesis by (simp add: readYAML_def readFileSync_def)
  qed (simp_all add: readYAML_def readFileSync_def Some)
qed

lemma make_doc_bare:
  assumes "readYAML E fs (path_join (path_join PUBLIC_DOCS p) f) = JObj []"
  shows "make_doc E fs p f = Inr (bare_doc p f)"
  using assms by (simp add: make_doc_def Let_def js_or_def bare_doc_def)

lemma make_doc_put_file_same:
  assumes "broken E b"
  shows "make_doc E (put_file fs p f b) p f = Inr (bare_doc p f)"
proof -
  from resolve_put_file_same [of fs p f b] assms
  have "broken E (resolve (put_file fs p f b) (path_join (path_join PUBLIC_DOCS p) f))"
    by (auto simp: broken_def)
  then show ?thesis by (intro make_doc_bare readYAML_broken)
qed

lemma make_doc_put_file_other:
  assumes "(q, g) \<noteq> (p, f)"
  shows "make_doc E (put_file fs p f b) q g = make_doc E fs q g"
  using resolve_put_file_other [OF assms, of fs b]
  by (simp add: make_doc_def readYAML_def readFileSync_def)


text \<open>
  The run on the changed tree follows the run on the tree step by step: the records it
  pushes are the same, except that the record of the changed sidecar is the bare one.
\<close>

lemma file_loop_put_file:
  assumes "file_loop E fs q files acc = Inr out"
    and "list_all2 (\<lambda>a a'. a = a' \<or> (make_doc E fs p f = Inr a \<and> a' = bare_doc p f)) acc acc'"
    and "broken E b"
  shows "\<exists>out'. file_loop E (put_file fs p f b) q files acc' = Inr out'
           \<and> list_all2 (\<lambda>a a'. a = a' \<or> (make_doc E fs p f = Inr a \<and> a' = bare_doc p f)) out out'"
  using assms(1,2)
proof (induction files arbitrary: acc acc')
  case Nil
  then show ?case by simp
next
  case (Cons g files)
  let ?R = "\<lambda>a a'. a = a' \<or> (make_doc E fs p f = Inr a \<and> a' = bare_doc p f)"
  from Cons.prems(1) obtain d where d: "make_doc E fs q g = Inr d"
    and rest: "file_loop E fs q files (acc @ [d]) = Inr out"
    by (auto split: sum.splits)
  have "\<exists>d'. make_doc E (put_file fs p f b) q g = Inr d' \<and> ?R d d'"
  proof (cases "(q, g) = (p, f)")
    case True
    with d make_doc_put_file_same [OF assms(3), of fs p f] show ?thesis by auto
  next
    case False
    from make_doc_put_file_other [OF False, of E fs b] d show ?thesis by auto
  qed
  then obtain d' where d': "make_doc E (put_file fs p f b) q g = Inr d'" and "?R d d'"
    by blast
  with Cons.prems(2) have "list_all2 ?R (acc @ [d]) (acc' @ [d'])"
    by (intro list_all2_appendI) simp_all
  from Cons.IH [OF rest this] d' show ?case by simp
qed

lemma project_loop_put_file:
  assumes "project_loop E fs ps acc = Inr out"
    and "list_all2 (\<lambda>a a'. a = a' \<or> (make_doc E fs p f = Inr a \<and> a' = bare_doc p f)) acc acc'"
    and "broken E b"
  shows "\<exists>out'. project_loop E (put_file fs p f b) ps acc' = Inr out'
           \<and> list_all2 (\<lambda>a a'. a = a' \<or> (make_doc E fs p f = Inr a \<and> a' = bare_doc p f)) out out'"
  using assms(1,2)
proof (induction ps arbitrary: acc acc')
  case Nil
  then show ?case by simp
next
  case (Cons q ps)
  from Cons.prems(1) obtain ds mid where ds: "readdirSync fs (path_join PUBLIC_DOCS q) = Inr ds"
    and fl: "file_loop E fs q (yaml_files ds) acc = Inr mid"
    and rest: "project_loop E fs ps mid = Inr out"
    by (auto split: sum.splits)
  from file_loop_put_file [OF fl Cons.prems(2) assms(3)] obtain mid' where
    fl': "file_loop E (put_file fs p f b) q (yaml_files ds) acc' = Inr mid'"
    and mid: "list_all2 (\<lambda>a a'. a = a' \<or> (make_doc E fs p f = Inr a \<and> a' = bare_doc p f)) mid mid'"
    by blast
  from Cons.IH [OF rest mid] ds fl' show ?case
    by (simp add: readdirSync_put_file)
qed

lemma date_or_epoch_bare: "date_or_epoch E (bare_doc p f) = Inr (Some 0)"
  by (simp add: date_or_epoch_def bare_doc_def time_clip_def)

lemma compare_docs_Inr:
  "(\<exists>v. compare_docs E a b = Inr v) \<longleftrightarrow>
     (\<exists>t. date_or_epoch E a = Inr t) \<and> (\<exists>t. date_or_epoch E b = Inr t)"
  by (cases "date_or_epoch E a"; cases "date_or_epoch E b") (simp_all add: compare_docs_def)

lemma js_sort_put_file:
  assumes "js_sort (compare_docs E) xs = Inr out"
    and "list_all2 (\<lambda>a a'. a = a' \<or> (make_doc E fs p f = Inr a \<and> a' = bare_doc p f)) xs xs'"
  shows "\<exists>out'. js_sort (compare_docs E) xs' = Inr out'"
proof (cases "2 \<le> length xs")
  case False
  with assms(2) have "length xs' \<le> 1" by (simp add: list_all2_lengthD)
  then show ?thesis by (simp add: js_sort_short)
next
  case True
  let ?ok = "\<lambda>r. \<exists>t. date_or_epoch E r = Inr t"
  have "\<forall>x\<in>set xs. ?ok x"
  proof (rule js_sort_compared [OF _ assms(1) True])
    fix a b v assume "compare_docs E a b = Inr v"
    then show "?ok a \<and> ?ok b" using compare_docs_Inr [of E a b] by blast
  qed
  with assms(2) have "\<forall>x\<in>set xs'. ?ok x"
  proof (induction rule: list_all2_induct)
    case Nil
    show ?case by simp
  next
    case (Cons x xs y ys)
    then show ?case by (auto simp: date_or_epoch_bare)
  qed
  then show ?thesis
  proof (rule js_sort_total [rotated])
    fix a b assume "?ok a" and "?ok b"
    then show "\<exists>v. compare_docs E a b = Inr v" using compare_docs_Inr [of E a b] by blast
  qed
qed

lemma count_put_file:
  assumes "list_all2 (\<lambda>a a'. a = a' \<or> (make_doc E fs p f = Inr a \<and> a' = bare_doc p f)) xs xs'"
    and "make_doc E fs p f \<noteq> Inr r"
  shows "count (mset xs) r \<le> count (mset xs') r"
  using assms(1)
proof (induction rule: list_all2_induct)
  case Nil
  show ?case by simp
next
  case (Cons x xs y ys)
  with assms(2) show ?case by auto
qed


text \<open>
  What the builder does not catch: a \<open>format\<close> that has no string makes it raise.
\<close>

lemma unprintable_run: "getAllDocs sample_env unprintable_fs = Inl TypeError"
  by code_simp

text \<open>
  Claim C4. Take any tree and any sidecar \<open>p/f\<close>, and let that file become unreadable,
  vanish or hold a text the parser rejects, all else unchanged. Its record then has the
  empty mapping as metadata and raises nothing. And if the builder returned a catalog for
  the tree, it returns one for the changed tree, of the same length, in which no record of
  another sidecar is missing and in which the record of \<open>p/f\<close> is, when the listings
  name \<open>p\<close> as a directory and \<open>f\<close> as a YAML file of it: the builder raises on a tree
  with such a sidecar only if it raises whatever that file holds.
\<close>

theorem broken_sidecar_is_swallowed:
  assumes "broken E b" and "getAllDocs E fs = Inr out"
  shows "\<exists>out'. getAllDocs E (put_file fs p f b) = Inr out'
       \<and> length out' = length out
       \<and> (\<forall>r. make_doc E fs p f \<noteq> Inr r \<longrightarrow> count (mset out) r \<le> count (mset out') r)
       \<and> make_doc E (put_file fs p f b) p f = Inr (bare_doc p f)
       \<and> meta (bare_doc p f) = JObj []
       \<and> (\<forall>L Lp. readdirSync fs PUBLIC_DOCS = Inr L \<and> (p, KDir) \<in> set L
              \<and> readdirSync fs (path_join PUBLIC_DOCS p) = Inr Lp \<and> (f, KFile) \<in> set Lp
              \<and> (\<exists>stem. f = stem @ ''.yml'' \<or> f = stem @ ''.yaml'')
            \<longrightarrow> bare_doc p f \<in> set out')"
proof -
  let ?fs' = "put_file fs p f b"
  let ?R = "\<lambda>a a'. a = a' \<or> (make_doc E fs p f = Inr a \<and> a' = bare_doc p f)"
  have bare: "make_doc E ?fs' p f = Inr (bare_doc p f)"
    by (rule make_doc_put_file_same [OF assms(1)])
  have empty: "meta (bare_doc p f) = JObj []"
    by (simp add: bare_doc_def)
  have run: "\<exists>out'. getAllDocs E ?fs' = Inr out' \<and> length out' = length out
       \<and> (\<forall>r. make_doc E fs p f \<noteq> Inr r \<longrightarrow> count (mset out) r \<le> count (mset out') r)"
  proof (cases "existsSync fs PUBLIC_DOCS")
    case False
    with assms(2) have "out = []" by (simp add: getAllDocs_def)
    moreover from False have "getAllDocs E ?fs' = Inr []"
      by (simp add: getAllDocs_def readdirSync_put_file)
    ultimately show ?thesis by simp
  next
    case True
    with getAllDocs_Inr [OF assms(2)] obtain ds projects where
      ds: "readdirSync fs PUBLIC_DOCS = Inr ds"
      and pl: "project_loop E fs (map fst (filter isDirectory ds)) [] = Inr projects"
      and srt: "js_sort (compare_docs E) projects = Inr out"
      by blast
    have "list_all2 ?R [] []" by simp
    from project_loop_put_file [OF pl this assms(1)] obtain projects' where
      pl': "project_loop E ?fs' (map fst (filter isDirectory ds)) [] = Inr projects'"
      and R: "list_all2 ?R projects projects'"
      by blast
    from js_sort_put_file [OF srt R] obtain out' where
      srt': "js_sort (compare_docs E) projects' = Inr out'"
      by blast
    from True ds pl' srt' have "getAllDocs E ?fs' = Inr out'"
      by (simp add: getAllDocs_def readdirSync_put_file)
    moreover have "length out' = length out"
      using length_js_sort [OF srt] length_js_sort [OF srt'] list_all2_lengthD [OF R] by simp
    moreover have "count (mset out) r \<le> count (mset out') r" if "make_doc E fs p f \<noteq> Inr r" for r
      using count_put_file [OF R that] mset_js_sort [OF srt] mset_js_sort [OF srt'] by simp
    ultimately show ?thesis by blast
  qed
  then obtain out' where out': "getAllDocs E ?fs' = Inr out'"
    and len: "length out' = length out"
    and cnt: "\<forall>r. make_doc E fs p f \<noteq> Inr r \<longrightarrow> count (mset out) r \<le> count (mset out') r"
    by blast
  have "bare_doc p f \<in> set out'"
    if "readdirSync fs PUBLIC_DOCS = Inr L" and "(p, KDir) \<in> set L"
      and "readdirSync fs (path_join PUBLIC_DOCS p) = Inr Lp" and "(f, KFile) \<in> set Lp"
      and "\<exists>stem. f = stem @ ''.yml'' \<or> f = stem @ ''.yaml''" for L Lp
  proof -
    from that(4,5) have "f \<in> set (yaml_files Lp)" unfolding in_yaml_files by blast
    with getAllDocs_produced [OF out', of L p Lp f] that(1,2,3) bare show ?thesis
      by (auto simp: readdirSync_put_file)
  qed
  then have prod: "\<forall>L Lp. readdirSync fs PUBLIC_DOCS = Inr L \<and> (p, KDir) \<in> set L
              \<and> readdirSync fs (path_join PUBLIC_DOCS p) = Inr Lp \<and> (f, KFile) \<in> set Lp
              \<and> (\<exists>stem. f = stem @ ''.yml'' \<or> f = stem @ ''.yaml'')
            \<longrightarrow> bare_doc p f \<in> set out'"
    by blast
  from out' len cnt bare empty prod show ?thesis by blast
qed

text \<open>The scenario with \<open>intro.yml\<close> cut short: \<open>update\<close> keeps its record, \<open>intro\<close> has the bare one.\<close>

theorem broken_sidecar_is_swallowed_witness:
  "broken sample_env (Some (File ''{format: pdf''))
   \<and> getAllDocs sample_env scenario_fs = Inr scenario_docs
   \<and> getAllDocs sample_env (put_file scenario_fs ''projectA'' ''intro.yml'' (Some (File ''{format: pdf'')))
       = Inr [scenario_docs ! 0, bare_doc ''projectA'' ''intro.yml'']
   \<and> (\<exists>out'. getAllDocs sample_env
                (put_file scenario_fs ''projectA'' ''intro.yml'' (Some (File ''{format: pdf''))) = Inr out'
       \<and> length out' = length scenario_docs
       \<and> (\<forall>r. make_doc sample_env scenario_fs ''projectA'' ''intro.yml'' \<noteq> Inr r \<longrightarrow>
              count (mset scenario_docs) r \<le> count (mset out') r)
       \<and> make_doc sample_env
            (put_file scenario_fs ''projectA'' ''intro.yml'' (Some (File ''{format: pdf'')))
            ''projectA'' ''intro.yml'' = Inr (bare_doc ''projectA'' ''intro.yml'')
       \<and> meta (bare_doc ''projectA'' ''intro.yml'') = JObj []
       \<and> (\<forall>L Lp. readdirSync scenario_fs PUBLIC_DOCS = Inr L \<and> (''projectA'', KDir) \<in> set L
              \<and> readdirSync scenario_fs (path_join PUBLIC_DOCS ''projectA'') = Inr Lp
              \<and> (''intro.yml'', KFile) \<in> set Lp
              \<and> (\<exists>stem. ''intro.yml'' = stem @ ''.yml'' \<or> ''intro.yml'' = stem @ ''.yaml'')
            \<longrightarrow> bare_doc ''projectA'' ''intro.yml'' \<in> set out'))"
proof -
  have b: "broken sample_env (Some (File ''{format: pdf''))"
    by (simp add: broken_def sample_env_def)
  have run: "getAllDocs sample_env scenario_fs = Inr scenario_docs"
    by (rule scenario_run)
  have run': "getAllDocs sample_env
                (put_file scenario_fs ''projectA'' ''intro.yml'' (Some (File ''{format: pdf'')))
              = Inr [scenario_docs ! 0, bare_doc ''projectA'' ''intro.yml'']"
    by code_simp
  note c = broken_sidecar_is_swallowed [OF b run, of "''projectA''" "''intro.yml''"]
  show ?thesis by (rule conjI [OF b conjI [OF run conjI [OF run' c]]])
qed

section \<open>The filename\<close>

text \<open>
  Claim C6. Every record's \<open>filename\<close> is its slug, a dot and the metadata's \<open>format\<close> as
  \<open>+\<close> converts it to a string: the field itself when it is a string, and \<open>undefined\<close>
  when there is no such field. Every sidecar the listings name has its record in the
  catalog, with the metadata read from its path, whether or not they hold a \<open>format\<close>.
\<close>

theorem filename_is_slug_dot_format:
  assumes "getAllDocs E fs = Inr out"
  shows "(\<forall>r\<in>set out.
            (\<exists>s. to_string E (get_prop (meta r) ''format'') = Inr s \<and> filename r = slug r @ ''.'' @ s)
          \<and> (\<forall>fmt. get_prop (meta r) ''format'' = JStr fmt \<longrightarrow> filename r = slug r @ ''.'' @ fmt)
          \<and> (get_prop (meta r) ''format'' = JUndefined \<longrightarrow> filename r = slug r @ ''.undefined''))
       \<and> (\<forall>L p Lp f. readdirSync fs PUBLIC_DOCS = Inr L \<and> (p, KDir) \<in> set L
              \<and> readdirSync fs (path_join PUBLIC_DOCS p) = Inr Lp \<and> (f, KFile) \<in> set Lp
              \<and> (\<exists>stem. f = stem @ ''.yml'' \<or> f = stem @ ''.yaml'')
            \<longrightarrow> (\<exists>r\<in>set out. project r = p \<and> slug r = replace_yaml_ext f
                   \<and> meta r = js_or (readYAML E fs (path_join (path_join PUBLIC_DOCS p) f)) (JObj [])))"
proof -
  have name: "(\<exists>s. to_string E (get_prop (meta r) ''format'') = Inr s \<and> filename r = slug r @ ''.'' @ s)
          \<and> (\<forall>fmt. get_prop (meta r) ''format'' = JStr fmt \<longrightarrow> filename r = slug r @ ''.'' @ fmt)
          \<and> (get_prop (meta r) ''format'' = JUndefined \<longrightarrow> filename r = slug r @ ''.undefined'')"
    if "r \<in> set out" for r
  proof -
    from getAllDocs_origin [OF assms that] obtain q g where "make_doc E fs q g = Inr r"
      by blast
    from make_doc_Inr(2,4) [OF this] obtain s where
      s: "to_string E (get_prop (meta r) ''format'') = Inr s" and "filename r = slug r @ ''.'' @ s"
      by auto
    then show ?thesis by auto
  qed
  have made: "\<exists>r\<in>set out. project r = p \<and> slug r = replace_yaml_ext f
                   \<and> meta r = js_or (readYAML E fs (path_join (path_join PUBLIC_DOCS p) f)) (JObj [])"
    if "readdirSync fs PUBLIC_DOCS = Inr L" and "(p, KDir) \<in> set L"
      and "readdirSync fs (path_join PUBLIC_DOCS p) = Inr Lp" and "(f, KFile) \<in> set Lp"
      and "\<exists>stem. f = stem @ ''.yml'' \<or> f = stem @ ''.yaml''" for L p Lp f
  proof -
    from that(4,5) have "f \<in> set (yaml_files Lp)" unfolding in_yaml_files by blast
    from getAllDocs_produced [OF assms that(1,2,3) this] obtain r where
      "r \<in> set out" and r: "make_doc E fs p f = Inr r"
      by blast
    with make_doc_Inr(1,2,3) [OF r] show ?thesis by blast
  qed
  from name made show ?thesis by blast
qed

text \<open>
  The damaged project: \<open>intro.yml\<close> has the format \<open>pdf\<close>, and \<open>notes.yml\<close> has a title and
  no format.
\<close>

theorem filename_is_slug_dot_format_witness:
  "getAllDocs sample_env damaged_fs = Inr damaged_docs
   \<and> damaged_docs ! 0 \<in> set damaged_docs
   \<and> get_prop (meta (damaged_docs ! 0)) ''format'' = JStr ''pdf''
   \<and> filename (damaged_docs ! 0) = slug (damaged_docs ! 0) @ ''.'' @ ''pdf''
   \<and> filename (damaged_docs ! 0) = ''intro.pdf''
   \<and> damaged_docs ! 3 \<in> set damaged_docs
   \<and> get_prop (meta (damaged_docs ! 3)) ''format'' = JUndefined
   \<and> filename (damaged_docs ! 3) = slug (damaged_docs ! 3) @ ''.undefined''
   \<and> filename (damaged_docs ! 3) = ''notes.undefined''
   \<and> (\<exists>L Lp. readdirSync damaged_fs PUBLIC_DOCS = Inr L \<and> (''projectA'', KDir) \<in> set L
         \<and> readdirSync damaged_fs (path_join PUBLIC_DOCS ''projectA'') = Inr Lp
         \<and> (''notes.yml'', KFile) \<in> set Lp)
   \<and> (\<exists>r\<in>set damaged_docs. project r = ''projectA'' \<and> slug r = replace_yaml_ext ''notes.yml''
         \<and> meta r = js_or (readYAML sample_env damaged_fs
                             (path_join (path_join PUBLIC_DOCS ''projectA'') ''notes.yml'')) (JObj []))"
proof -
  have run: "getAllDocs sample_env damaged_fs = Inr damaged_docs"
    by (rule damaged_run)
  note c = filename_is_slug_dot_format [OF run]
  have m0: "damaged_docs ! 0 \<in> set damaged_docs"
    by (simp add: damaged_docs_def)
  have g0: "get_prop (meta (damaged_docs ! 0)) ''format'' = JStr ''pdf''"
    by (simp add: damaged_docs_def)
  from c m0 g0 have f0: "filename (damaged_docs ! 0) = slug (damaged_docs ! 0) @ ''.'' @ ''pdf''"
    by blast
  have v0: "filename (damaged_docs ! 0) = ''intro.pdf''"
    by (simp add: damaged_docs_def)
  have m3: "damaged_docs ! 3 \<in> set damaged_docs"
    by (simp add: damaged_docs_def)
  have g3: "get_prop (meta (damaged_docs ! 3)) ''format'' = JUndefined"
    by (simp add: damaged_docs_def)
  from c m3 g3 have f3: "filename (damaged_docs ! 3) = slug (damaged_docs ! 3) @ ''.undefined''"
    by blast
  have v3: "filename (damaged_docs ! 3) = ''notes.undefined''"
    by (simp add: damaged_docs_def)
  have L: "readdirSync damaged_fs PUBLIC_DOCS = Inr [(''projectA'', KDir), (''README.md'', KFile)]"
    by code_simp
  have p: "(''projectA'', KDir) \<in> set [(''projectA'', KDir), (''README.md'', KFile)]"
    by simp
  have Lp: "readdirSync damaged_fs (path_join PUBLIC_DOCS ''projectA'') =
      Inr [(''bad.yml'', KFile), (''locked.yaml'', KFile), (''notes.yml'', KFile), (''intro.yml'', KFile)]"
    by code_simp
  have f: "(''notes.yml'', KFile) \<in>
      set [(''bad.yml'', KFile), (''locked.yaml'', KFile), (''notes.yml'', KFile), (''intro.yml'', KFile)]"
    by simp
  have st: "\<exists>stem. ''notes.yml'' = stem @ ''.yml'' \<or> ''notes.yml'' = stem @ ''.yaml''"
    by (rule exI [of _ "''notes''"]) simp
  from L p Lp f have lst: "\<exists>L Lp. readdirSync damaged_fs PUBLIC_DOCS = Inr L \<and> (''projectA'', KDir) \<in> set L
         \<and> readdirSync damaged_fs (path_join PUBLIC_DOCS ''projectA'') = Inr Lp
         \<and> (''notes.yml'', KFile) \<in> set Lp"
    by blast
  from c [THEN conjunct2] L p Lp f st
  have made: "\<exists>r\<in>set damaged_docs. project r = ''projectA'' \<and> slug r = replace_yaml_ext ''notes.yml''
         \<and> meta r = js_or (readYAML sample_env damaged_fs
                             (path_join (path_join PUBLIC_DOCS ''projectA'') ''notes.yml'')) (JObj [])"
    by blast
  show ?thesis
    by (rule conjI [OF run conjI [OF m0 conjI [OF g0 conjI [OF f0 conjI [OF v0 conjI [OF m3
          conjI [OF g3 conjI [OF f3 conjI [OF v3 conjI [OF lst made]]]]]]]]]])
qed

section \<open>Properties of the file icon\<close>

lemma split_not_Nil: "split c s \<noteq> []"
  by (induction s) (simp_all split: list.split)

lemma split_without: "c \<notin> set s \<Longrightarrow> split c s = [s]"
  by (induction s) auto

lemma split_around: "split c (a @ c # b) = split c a @ split c b"
proof (induction a)
  case Nil
  show ?case by simp
next
  case (Cons x a)
  obtain p ps where p: "split c a = p # ps"
    using split_not_Nil [of c a] by (cases "split c a") simp_all
  with Cons show ?case by simp
qed

lemma pop_last: "xs \<noteq> [] \<Longrightarrow> pop xs = Some (last xs)"
  by (induction xs rule: pop.induct) simp_all

lemma last_split: "last (split c s) = rev (takeWhile (\<lambda>x. x \<noteq> c) (rev s))"
proof (cases "c \<in> set s")
  case False
  then have tw: "takeWhile (\<lambda>x. x \<noteq> c) (rev s) = rev s"
    by auto
  from False have sp: "split c s = [s]" by (rule split_without)
  show ?thesis unfolding sp tw by simp
next
  case True
  then obtain a b where s: "s = a @ c # b" and b: "c \<notin> set b"
    by (auto dest: split_list_last)
  from b have "takeWhile (\<lambda>x. x \<noteq> c) (rev b @ c # rev a) = rev b"
    by (subst takeWhile_append2) auto
  then have "rev (takeWhile (\<lambda>x. x \<noteq> c) (rev s)) = b"
    by (simp add: s)
  moreover have "last (split c s) = b"
    using b by (simp add: s split_around split_without)
  ultimately show ?thesis by simp
qed

lemma file_ext_Some: "file_ext (Some name) = toLowerCase (after_last_dot name)"
proof -
  have "pop (split (CHR ''.'') name) = Some (after_last_dot name)"
    by (simp add: pop_last split_not_Nil last_split after_last_dot_def)
  then show ?thesis by (simp add: file_ext_def)
qed

lemma file_ext_None: "file_ext None = []"
  by (simp add: file_ext_def toLowerCase_def)

text \<open>
  Claim C9, as amended. The icon depends on the filename alone: it is the icon the table
  gives to the lowered part of the name after its last \<open>.\<close>, which is the whole name when
  the name has no \<open>.\<close>. The table knows \<open>pdf\<close>; \<open>doc\<close>, \<open>docx\<close>; \<open>xls\<close>, \<open>xlsx\<close>;
  \<open>ppt\<close>, \<open>pptx\<close>; \<open>zip\<close>, \<open>tgz\<close>, \<open>tar\<close>, \<open>gz\<close>, and gives the generic icon to
  anything else, as the component does to a missing filename. So \<open>report.PDF\<close> has the
  pdf icon, \<open>archive.tar.gz\<close> the archive icon and \<open>notes\<close> the generic one.
\<close>

theorem FileIcon_by_last_extension:
  "component (FileIcon (Some name) cls sz) = icon_switch (toLowerCase (after_last_dot name))
   \<and> component (FileIcon None cls sz) = FaFileAlt
   \<and> (icon_switch e = FaFilePdf \<longleftrightarrow> e = ''pdf'')
   \<and> (icon_switch e = FaFileWord \<longleftrightarrow> e \<in> {''doc'', ''docx''})
   \<and> (icon_switch e = FaFileExcel \<longleftrightarrow> e \<in> {''xls'', ''xlsx''})
   \<and> (icon_switch e = FaFilePowerpoint \<longleftrightarrow> e \<in> {''ppt'', ''pptx''})
   \<and> (icon_switch e = FaFileArchive \<longleftrightarrow> e \<in> {''zip'', ''tgz'', ''tar'', ''gz''})
   \<and> (icon_switch e = FaFileAlt \<longleftrightarrow>
        e \<notin> {''pdf'', ''doc'', ''docx'', ''xls'', ''xlsx'', ''ppt'', ''pptx'',
              ''zip'', ''tgz'', ''tar'', ''gz''})
   \<and> component (FileIcon (Some ''report.PDF'') cls sz) = FaFilePdf
   \<and> component (FileIcon (Some ''archive.tar.gz'') cls sz) = FaFileArchive
   \<and> component (FileIcon (Some ''notes'') cls sz) = FaFileAlt"
proof -
  have a: "component (FileIcon (Some name) cls sz) = icon_switch (toLowerCase (after_last_dot name))"
    by (simp add: FileIcon_def file_ext_Some)
  have b: "component (FileIcon None cls sz) = FaFileAlt"
    by (simp add: FileIcon_def file_ext_None icon_switch_def)
  have c1: "icon_switch e = FaFilePdf \<longleftrightarrow> e = ''pdf''"
    by (simp add: icon_switch_def)
  have c2: "icon_switch e = FaFileWord \<longleftrightarrow> e \<in> {''doc'', ''docx''}"
    by (simp add: icon_switch_def)
  have c3: "icon_switch e = FaFileExcel \<longleftrightarrow> e \<in> {''xls'', ''xlsx''}"
    by (simp add: icon_switch_def)
  have c4: "icon_switch e = FaFilePowerpoint \<longleftrightarrow> e \<in> {''ppt'', ''pptx''}"
    by (simp add: icon_switch_def)
  have c5: "icon_switch e = FaFileArchive \<longleftrightarrow> e \<in> {''zip'', ''tgz'', ''tar'', ''gz''}"
    by (simp add: icon_switch_def)
  have c6: "icon_switch e = FaFileAlt \<longleftrightarrow>
        e \<notin> {''pdf'', ''doc'', ''docx'', ''xls'', ''xlsx'', ''ppt'', ''pptx'',
              ''zip'', ''tgz'', ''tar'', ''gz''}"
    by (simp add: icon_switch_def)
  have "icon_switch (toLowerCase (after_last_dot ''report.PDF'')) = FaFilePdf"
    by code_simp
  then have e1: "component (FileIcon (Some ''report.PDF'') cls sz) = FaFilePdf"
    by (simp add: FileIcon_def file_ext_Some)
  have "icon_switch (toLowerCase (after_last_dot ''archive.tar.gz'')) = FaFileArchive"
    by code_simp
  then have e2: "component (FileIcon (Some ''archive.tar.gz'') cls sz) = FaFileArchive"
    by (simp add: FileIcon_def file_ext_Some)
  have "icon_switch (toLowerCase (after_last_dot ''notes'')) = FaFileAlt"
    by code_simp
  then have e3: "component (FileIcon (Some ''notes'') cls sz) = FaFileAlt"
    by (simp add: FileIcon_def file_ext_Some)
  show ?thesis
    by (rule conjI [OF a conjI [OF b conjI [OF c1 conjI [OF c2 conjI [OF c3 conjI [OF c4
          conjI [OF c5 conjI [OF c6 conjI [OF e1 conjI [OF e2 e3]]]]]]]]]])
qed

text \<open>
  Claim C9 as stated fails on a name without extension that spells one: \<open>pdf\<close> has no
  \<open>.\<close> and gets the pdf icon, not the generic one.
\<close>

theorem FileIcon_absent_extension_counterexample:
  "CHR ''.'' \<notin> set ''pdf''
   \<and> component (FileIcon (Some ''pdf'') None None) = FaFilePdf
   \<and> component (FileIcon (Some ''pdf'') None None) \<noteq> FaFileAlt"
  by code_simp

text \<open>
  Claim C10. A filename without \<open>.\<close> that is, once lowered, one of the extensions of the
  table gets the icon of that extension and not the generic icon; a missing or empty
  filename gets the generic icon.
\<close>

theorem FileIcon_without_dot:
  assumes "CHR ''.'' \<notin> set name" and "toLowerCase name = e"
    and "e \<in> {''pdf'', ''doc'', ''docx'', ''xls'', ''xlsx'', ''ppt'', ''pptx'',
              ''zip'', ''tgz'', ''tar'', ''gz''}"
  shows "component (FileIcon (Some name) cls sz) = icon_switch e
       \<and> component (FileIcon (Some name) cls sz) \<noteq> FaFileAlt
       \<and> component (FileIcon None cls sz) = FaFileAlt
       \<and> component (FileIcon (Some []) cls sz) = FaFileAlt"
proof -
  from assms(1) have tw: "takeWhile (\<lambda>c. c \<noteq> CHR ''.'') (rev name) = rev name"
    by auto
  have "after_last_dot name = name"
    unfolding after_last_dot_def tw by simp
  with assms(2) have a: "component (FileIcon (Some name) cls sz) = icon_switch e"
    by (simp add: FileIcon_def file_ext_Some)
  from assms(3) have "icon_switch e \<noteq> FaFileAlt"
    by (auto simp: icon_switch_def)
  with a have b: "component (FileIcon (Some name) cls sz) \<noteq> FaFileAlt" by simp
  have c: "component (FileIcon None cls sz) = FaFileAlt"
    by (simp add: FileIcon_def file_ext_None icon_switch_def)
  have d: "component (FileIcon (Some []) cls sz) = FaFileAlt"
    by (simp add: FileIcon_def file_ext_Some after_last_dot_def toLowerCase_def icon_switch_def)
  show ?thesis by (rule conjI [OF a conjI [OF b conjI [OF c d]]])
qed

theorem FileIcon_without_dot_witness:
  "CHR ''.'' \<notin> set ''ZIP'' \<and> toLowerCase ''ZIP'' = ''zip''
   \<and> ''zip'' \<in> {''pdf'', ''doc'', ''docx'', ''xls'', ''xlsx'', ''ppt'', ''pptx'',
              ''zip'', ''tgz'', ''tar'', ''gz''}
   \<and> component (FileIcon (Some ''ZIP'') None None) = icon_switch ''zip''
   \<and> component (FileIcon (Some ''ZIP'') None None) \<noteq> FaFileAlt
   \<and> icon_switch ''zip'' = FaFileArchive"
proof -
  have h1: "CHR ''.'' \<notin> set ''ZIP''" by simp
  have h2: "toLowerCase ''ZIP'' = ''zip''"
    by code_simp
  have h3: "''zip'' \<in> {''pdf'', ''doc'', ''docx'', ''xls'', ''xlsx'', ''ppt'', ''pptx'',
              ''zip'', ''tgz'', ''tar'', ''gz''}"
    by simp
  note c = FileIcon_without_dot [OF h1 h2 h3, of None None]
  have z: "icon_switch ''zip'' = FaFileArchive" by (simp add: icon_switch_def)
  show ?thesis
    by (rule conjI [OF h1 conjI [OF h2 conjI [OF h3 conjI [OF c [THEN conjunct1]
          conjI [OF c [THEN conjunct2, THEN conjunct1] z]]]]])
qed

end
